theory Spec2Isabelle
  imports Complex_Main
begin

section \<open>JavaScript values and string primitives\<close>

text \<open>
  Strings are byte strings (UTF-8): the en-dash U+2013 of the year pattern is the three
  bytes E2 80 93. Integers produced by \<open>parseInt\<close> are modelled as unbounded \<open>int\<close>
  (exact below 2^53); \<open>None\<close> stands for \<open>NaN\<close>. Floating point results and dates
  are supplied by the host, see \<open>host\<close> below. \<open>toLowerCase\<close> folds the ASCII
  letters, which are the letters of the upstream's property names.
\<close>

text \<open>A value of an upstream JSON object: a string, or an array of
  \<open>{Source, Value}\<close> objects (the \<open>Ratings\<close> field).\<close>

datatype oval = OStr string | OArr "(string \<times> string) list"

text \<open>An upstream JSON object: its own property names, in order, with their values.\<close>

type_synonym payload = "(string \<times> oval) list"

text \<open>An element of a ratings array: an upstream \<open>{Source, Value}\<close> object, or the
  \<open>{source, value}\<close> object the constructor pushes (a field read from a value that
  has none is \<open>undefined\<close>, here \<open>None\<close>).\<close>

datatype rating = RawRating string string | Rating "string option" "string option"

datatype jsval =
    Undefined
  | Str string
  | Arr "rating list"
  | Num int
  | NaN
  | Flt rat
  | DateV int
  | Bool bool

fun ofRaw :: "oval \<Rightarrow> jsval" where
  "ofRaw (OStr s) = Str s"
| "ofRaw (OArr rs) = Arr (map (\<lambda>(a, b). RawRating a b) rs)"

text \<open>A constructed object: a bag of properties (\<open>this[key] = value\<close>).\<close>

type_synonym jsobj = "string \<Rightarrow> jsval option"

definition getp :: "jsobj \<Rightarrow> string \<Rightarrow> jsval" where
  "getp this k = (case this k of None \<Rightarrow> Undefined | Some v \<Rightarrow> v)"

text \<open>\<open>obj[k]\<close> on a payload: \<open>None\<close> is \<open>undefined\<close>.\<close>

definition field :: "payload \<Rightarrow> string \<Rightarrow> oval option" where
  "field obj k = map_of obj k"

definition hasOwnProperty :: "payload \<Rightarrow> string \<Rightarrow> bool" where
  "hasOwnProperty obj k = (k \<in> set (map fst obj))"

text \<open>The engine's builtins that are not modelled bit by bit: \<open>parseFloat\<close>
  (\<open>None\<close> is \<open>NaN\<close>), \<open>new Date(s).getTime()\<close> (\<open>None\<close> is \<open>NaN\<close>, an invalid
  date), the string form of a float or a date, the string form of the value that a
  plain object inherits under a name of \<open>Object.prototype\<close>, and the UTF-16 code
  units of a code point (each as a string).\<close>

record host =
  parseFloat :: "string \<Rightarrow> rat option"
  dateParse :: "string \<Rightarrow> int option"
  showHost :: "jsval \<Rightarrow> string"
  protoKey :: "string \<Rightarrow> string"
  codeUnits :: "string \<Rightarrow> string list"

datatype error = TypeError string | ImdbError string | TransportError string

definition isDigit :: "char \<Rightarrow> bool" where
  "isDigit c = (c \<in> set ''0123456789'')"

definition digitVal :: "char \<Rightarrow> int" where
  "digitVal c = int (of_char c) - 48"

text \<open>The white space and line terminators that \<open>parseInt\<close> skips, in UTF-8:
  TAB, LF, VT, FF, CR, SP, U+00A0, U+1680, U+2000 to U+200A, U+2028, U+2029, U+202F,
  U+205F, U+3000 and U+FEFF.\<close>

definition wsSeqs :: "string list" where
  "wsSeqs = [[CHR 0x09], [CHR 0x0A], [CHR 0x0B], [CHR 0x0C], [CHR 0x0D], [CHR 0x20],
             [CHR 0xC2, CHR 0xA0], [CHR 0xE1, CHR 0x9A, CHR 0x80]] @
            map (\<lambda>c. [CHR 0xE2, CHR 0x80, c])
              [CHR 0x80, CHR 0x81, CHR 0x82, CHR 0x83, CHR 0x84, CHR 0x85, CHR 0x86, CHR 0x87,
               CHR 0x88, CHR 0x89, CHR 0x8A, CHR 0xA8, CHR 0xA9, CHR 0xAF] @
            [[CHR 0xE2, CHR 0x81, CHR 0x9F], [CHR 0xE3, CHR 0x80, CHR 0x80],
             [CHR 0xEF, CHR 0xBB, CHR 0xBF]]"

text \<open>The length of the white space character that a string starts with, or 0.\<close>

definition wsPrefix :: "string \<Rightarrow> nat" where
  "wsPrefix s = (case find (\<lambda>w. take (length w) s = w) wsSeqs of
                   None \<Rightarrow> 0 | Some w \<Rightarrow> length w)"

definition toLowerChar :: "char \<Rightarrow> char" where
  "toLowerChar c =
     (case map_of (zip ''ABCDEFGHIJKLMNOPQRSTUVWXYZ'' ''abcdefghijklmnopqrstuvwxyz'') c of
        None \<Rightarrow> c | Some d \<Rightarrow> d)"

definition toLowerCase :: "string \<Rightarrow> string" where
  "toLowerCase s = map toLowerChar s"

fun showNat :: "nat \<Rightarrow> string" where
  "showNat n = (if n < 10 then [char_of (48 + n)]
                else showNat (n div 10) @ [char_of (48 + n mod 10)])"

definition showInt :: "int \<Rightarrow> string" where
  "showInt i = (if i < 0 then CHR ''-'' # showNat (nat (- i)) else showNat (nat i))"

fun joinComma :: "string list \<Rightarrow> string" where
  "joinComma [] = []"
| "joinComma [x] = x"
| "joinComma (x # y # zs) = x @ '','' @ joinComma (y # zs)"

text \<open>\<open>String(v)\<close>; an array of plain objects prints as \<open>[object Object],...\<close>.\<close>

definition toString :: "host \<Rightarrow> jsval \<Rightarrow> string" where
  "toString h v = (case v of
       Undefined \<Rightarrow> ''undefined''
     | Str s \<Rightarrow> s
     | Arr rs \<Rightarrow> joinComma (map (\<lambda>_. ''[object Object]'') rs)
     | Num n \<Rightarrow> showInt n
     | NaN \<Rightarrow> ''NaN''
     | Bool b \<Rightarrow> (if b then ''true'' else ''false'')
     | _ \<Rightarrow> showHost h v)"

text \<open>\<open>String(obj[k])\<close> for a payload value that may be missing.\<close>

definition rawString :: "host \<Rightarrow> oval option \<Rightarrow> string" where
  "rawString h v = (case v of None \<Rightarrow> ''undefined'' | Some w \<Rightarrow> toString h (ofRaw w))"

text \<open>\<open>parseInt(s, 10)\<close>: skip leading white space, read an optional sign, then the
  longest prefix of decimal digits; no digit gives \<open>NaN\<close>.\<close>

definition digitsVal :: "string \<Rightarrow> int" where
  "digitsVal ds = foldl (\<lambda>acc c. 10 * acc + digitVal c) 0 ds"

definition parseDigits :: "string \<Rightarrow> int option" where
  "parseDigits s = (let ds = takeWhile isDigit s in
                    if ds = [] then None else Some (digitsVal ds))"

function trimStart :: "string \<Rightarrow> string" where
  "trimStart s = (if wsPrefix s = 0 then s else trimStart (drop (wsPrefix s) s))"
  by pat_completeness auto
termination
proof (relation "measure length")
  show "wf (measure length)" by simp
next
  fix s :: string
  assume "wsPrefix s \<noteq> 0"
  moreover have "wsPrefix [] = 0" by (simp add: wsPrefix_def wsSeqs_def)
  ultimately have "s \<noteq> []" by auto
  with \<open>wsPrefix s \<noteq> 0\<close> show "(drop (wsPrefix s) s, s) \<in> measure length" by simp
qed

definition parseIntStr :: "string \<Rightarrow> int option" where
  "parseIntStr s = (case trimStart s of
       [] \<Rightarrow> None
     | c # cs \<Rightarrow> if c = CHR ''-'' then map_option uminus (parseDigits cs)
                else if c = CHR ''+'' then parseDigits cs
                else parseDigits (c # cs))"

definition parseInt :: "host \<Rightarrow> oval option \<Rightarrow> int option" where
  "parseInt h v = parseIntStr (rawString h v)"

definition numOf :: "int option \<Rightarrow> jsval" where
  "numOf r = (case r of None \<Rightarrow> NaN | Some n \<Rightarrow> Num n)"

text \<open>The pattern \<open>/\d{4}[-\<dots>](?:\d{4})?/\<close> with a hyphen or an en-dash; it is not
  anchored, so \<open>match\<close> searches every position.\<close>

definition enDash :: string where
  "enDash = [CHR 0xE2, CHR 0x80, CHR 0x93]"

text \<open>The optional group \<open>(?:\d{4})?\<close> matches four digits or nothing, so it never
  makes a match fail.\<close>

definition optional4 :: "string \<Rightarrow> bool" where
  "optional4 s = (list_all isDigit (take 4 s) \<and> length s \<ge> 4 \<or> True)"

definition yearRangeAt :: "string \<Rightarrow> bool" where
  "yearRangeAt s = (length s \<ge> 4 \<and> list_all isDigit (take 4 s) \<and>
     (let r = drop 4 s in
        (take 1 r = ''-'' \<and> optional4 (drop 1 r)) \<or>
        (take 3 r = enDash \<and> optional4 (drop 3 r))))"

fun matchYearRange :: "string \<Rightarrow> bool" where
  "matchYearRange [] = False"
| "matchYearRange (c # cs) = (yearRangeAt (c # cs) \<or> matchYearRange cs)"

text \<open>\<open>s.split("-")\<close>.\<close>

fun splitHyphen :: "string \<Rightarrow> string list" where
  "splitHyphen [] = [[]]"
| "splitHyphen (c # cs) =
     (if c = CHR ''-'' then [] # splitHyphen cs
      else (case splitHyphen cs of [] \<Rightarrow> [[c]] | w # ws \<Rightarrow> (c # w) # ws))"

definition nthOrUndefined :: "string list \<Rightarrow> nat \<Rightarrow> oval option" where
  "nthOrUndefined xs i = (if i < length xs then Some (OStr (xs ! i)) else None)"

section \<open>Movie\<close>

text \<open>\<open>this[k] = v\<close>. Assigning to \<open>__proto__\<close> creates no own property.\<close>

definition setp :: "jsobj \<Rightarrow> string \<Rightarrow> jsval \<Rightarrow> jsobj" where
  "setp this k v = (if k = ''__proto__'' then this else this(k \<mapsto> v))"

definition objectProtoNames :: "string list" where
  "objectProtoNames = [''constructor'', ''__defineGetter__'', ''__defineSetter__'',
     ''hasOwnProperty'', ''__lookupGetter__'', ''__lookupSetter__'', ''isPrototypeOf'',
     ''propertyIsEnumerable'', ''toString'', ''valueOf'', ''__proto__'', ''toLocaleString'']"

text \<open>\<open>transTable[attr]\<close>: the four own entries; a name of \<open>Object.prototype\<close>
  reads the inherited value, which as a property key is the host's string for it.\<close>

definition transTable :: "host \<Rightarrow> string \<Rightarrow> string option" where
  "transTable h attr =
     (if attr = ''Genre'' then Some ''genres''
      else if attr = ''Language'' then Some ''languages''
      else if attr = ''imdbRating'' then Some ''rating''
      else if attr = ''imdbVotes'' then Some ''votes''
      else if attr \<in> set objectProtoNames then Some (protoKey h attr)
      else None)"

text \<open>\<open>new Date(v)\<close> followed by \<open>isNaN(val.getTime())\<close>: a string is parsed, an
  array is first turned into its string.\<close>

definition newDate :: "host \<Rightarrow> oval \<Rightarrow> jsval" where
  "newDate h v = (case dateParse h (toString h (ofRaw v)) of
                    None \<Rightarrow> Undefined | Some t \<Rightarrow> DateV t)"

definition isContinuation :: "char \<Rightarrow> bool" where
  "isContinuation c = (128 \<le> (of_char c :: nat) \<and> (of_char c :: nat) < 192)"

text \<open>The elements that \<open>for (const rating of obj[attr])\<close> pushes: one per element
  of an array, one per code point of a string (whose \<open>Source\<close> and \<open>Value\<close> are
  undefined).\<close>

definition pushedRatings :: "oval \<Rightarrow> rating list" where
  "pushedRatings v = (case v of
       OArr rs \<Rightarrow> map (\<lambda>(a, b). Rating (Some a) (Some b)) rs
     | OStr s \<Rightarrow> map (\<lambda>_. Rating None None) (filter (\<lambda>c. \<not> isContinuation c) s))"

definition movieAttr :: "host \<Rightarrow> payload \<Rightarrow> jsobj \<Rightarrow> string \<Rightarrow> error + jsobj" where
  "movieAttr h obj this attr =
     (case field obj attr of
        None \<Rightarrow> Inr this
      | Some v \<Rightarrow>
          if attr = ''Year'' then
            (case v of
               OStr s \<Rightarrow>
                 (let this1 = setp this ''_yearData'' (Str s) in
                  if \<not> matchYearRange s then
                    (case parseIntStr s of
                       None \<Rightarrow> Inl (TypeError ''invalid year'')
                     | Some val \<Rightarrow> Inr (setp this1 (toLowerCase attr) (Num val)))
                  else Inr this1)
             | OArr rs \<Rightarrow> Inl (TypeError ''obj[attr].match is not a function''))
          else if attr = ''Released'' then Inr (setp this ''released'' (newDate h v))
          else if attr = ''DVD'' then Inr (setp this ''dvd'' (newDate h v))
          else if attr = ''imdbRating'' then
            Inr (setp this ''rating''
                   (case parseFloat h (toString h (ofRaw v)) of
                      None \<Rightarrow> Num 0 | Some val \<Rightarrow> Flt val))
          else (case transTable h attr of
             Some key \<Rightarrow> Inr (setp this key (ofRaw v))
           | None \<Rightarrow>
               if attr = ''Ratings'' then
                 (if pushedRatings v = [] then Inr this
                  else (case getp this ''ratings'' of
                     Arr rs \<Rightarrow> Inr (setp this ''ratings'' (Arr (rs @ pushedRatings v)))
                   | _ \<Rightarrow> Inl (TypeError ''this.ratings.push is not a function'')))
               else Inr (setp this (toLowerCase attr) (ofRaw v))))"

text \<open>The loop over \<open>Object.getOwnPropertyNames(obj)\<close>; a throw ends it.\<close>

fun movieLoop :: "host \<Rightarrow> payload \<Rightarrow> jsobj \<Rightarrow> string list \<Rightarrow> error + jsobj" where
  "movieLoop h obj this [] = Inr this"
| "movieLoop h obj this (attr # attrs) =
     (case movieAttr h obj this attr of
        Inl e \<Rightarrow> Inl e
      | Inr this1 \<Rightarrow> movieLoop h obj this1 attrs)"

definition movieFinish :: "host \<Rightarrow> jsobj \<Rightarrow> jsobj" where
  "movieFinish h this =
     (let this1 = setp this ''name'' (getp this ''title'');
          this2 = setp this1 ''series'' (Bool (getp this1 ''type'' \<noteq> Str ''movie''))
      in setp this2 ''imdburl''
           (Str (''https://www.imdb.com/title/'' @ toString h (getp this2 ''imdbid''))))"

definition Movie :: "host \<Rightarrow> payload \<Rightarrow> error + jsobj" where
  "Movie h obj =
     (case movieLoop h obj (setp Map.empty ''ratings'' (Arr [])) (map fst obj) of
        Inl e \<Rightarrow> Inl e
      | Inr this \<Rightarrow> Inr (movieFinish h this))"

section \<open>Episode, TVShow, Game\<close>

text \<open>\<open>new Episode(obj, season)\<close>; \<open>season\<close> is \<open>Undefined\<close> when the argument
  is omitted.\<close>

definition Episode :: "host \<Rightarrow> payload \<Rightarrow> jsval \<Rightarrow> error + jsobj" where
  "Episode h obj season =
     (case Movie h obj of
        Inl e \<Rightarrow> Inl e
      | Inr this \<Rightarrow>
          (case (if season \<noteq> Undefined then Inr (setp this ''season'' season)
                 else (case parseInt h (field obj ''Season'') of
                         None \<Rightarrow> Inl (TypeError ''invalid season'')
                       | Some n \<Rightarrow> Inr (setp this ''season'' (Num n)))) of
             Inl e \<Rightarrow> Inl e
           | Inr this1 \<Rightarrow>
               if hasOwnProperty obj ''Episode'' then
                 (case parseInt h (field obj ''Episode'') of
                    None \<Rightarrow> Inl (TypeError ''invalid episode'')
                  | Some n \<Rightarrow> Inr (setp this1 ''episode'' (Num n)))
               else Inr this1))"

definition Game :: "host \<Rightarrow> payload \<Rightarrow> error + jsobj" where
  "Game h obj = Movie h obj"

text \<open>An optional property of an options or request object: missing, present with the
  value \<open>undefined\<close>, or present with a value.\<close>

datatype 'a pval = Missing | Undef | Val 'a

record MovieOpts =
  apiKey :: "string pval"
  timeout :: "int pval"

definition strOf :: "string pval \<Rightarrow> jsval" where
  "strOf p = (case p of Val s \<Rightarrow> Str s | _ \<Rightarrow> Undefined)"

definition numOfP :: "int pval \<Rightarrow> jsval" where
  "numOfP p = (case p of Val n \<Rightarrow> Num n | _ \<Rightarrow> Undefined)"

text \<open>A \<open>TVShow\<close>: the properties set by the \<open>Movie\<close> constructor, and the fields
  the \<open>TVShow\<close> constructor assigns after \<open>super(obj)\<close> (they replace whatever the
  payload copied under the same names). \<open>start_year\<close> and \<open>totalseasons\<close> are
  numbers (\<open>None\<close> is \<open>NaN\<close>); \<open>end_year\<close> is a number or \<open>undefined\<close>
  (\<open>None\<close>); \<open>episodesCache\<close> is the private \<open>_episodes\<close>.\<close>

record TVShow =
  props :: jsobj
  start_year :: "int option"
  end_year :: "int option"
  totalseasons :: "int option"
  episodesCache :: "jsobj list"
  opts :: MovieOpts

definition truthyNum :: "int option \<Rightarrow> bool" where
  "truthyNum r = (case r of None \<Rightarrow> False | Some n \<Rightarrow> n \<noteq> 0)"

definition TVShow :: "host \<Rightarrow> payload \<Rightarrow> MovieOpts \<Rightarrow> error + TVShow" where
  "TVShow h obj os =
     (case Movie h obj of
        Inl e \<Rightarrow> Inl e
      | Inr this \<Rightarrow>
          (case getp this ''_yearData'' of
             Str yd \<Rightarrow>
               (let years = splitHyphen yd in
                Inr \<lparr> props = this,
                      start_year = parseInt h (nthOrUndefined years 0),
                      end_year = (if truthyNum (parseInt h (nthOrUndefined years 1))
                                  then parseInt h (nthOrUndefined years 1) else None),
                      totalseasons = parseInt h (field obj ''totalSeasons''),
                      episodesCache = [],
                      opts = os \<rparr>)
           | Undefined \<Rightarrow>
               Inl (TypeError ''Cannot read properties of undefined (reading split)'')
           | _ \<Rightarrow> Inl (TypeError ''this._yearData.split is not a function'')))"

section \<open>Transport, promises and response classification\<close>

text \<open>The options object handed to \<open>ky(omdbapi, reqopts)\<close>.\<close>

record request =
  searchParams :: "(string \<times> jsval) list"
  headers :: "(string \<times> string) list"
  rtimeout :: jsval

definition jsonHeaders :: "(string \<times> string) list" where
  "jsonHeaders = [(''Content-Type'', ''application/json'')]"

text \<open>\<open>reqopts.timeout\<close>: \<open>undefined\<close> unless \<open>"timeout" in opts\<close>.\<close>

definition timeoutOf :: "MovieOpts \<Rightarrow> jsval" where
  "timeoutOf os = (if timeout os \<noteq> Missing then numOfP (timeout os) else Undefined)"

text \<open>How a call ends: a synchronous throw, a rejected promise, or a promise resolved
  with a value.\<close>

datatype 'a outcome = Throws error | Rejected error | Resolved 'a

text \<open>\<open>Promise.all\<close> over settled transport calls: the list of values, or a rejection.
  Which of several rejected calls is reported depends on timing; the model reports the
  first in request order.\<close>

fun promiseAll :: "(error + 'a) list \<Rightarrow> error + 'a list" where
  "promiseAll [] = Inr []"
| "promiseAll (Inl e # rs) = Inl e"
| "promiseAll (Inr x # rs) = (case promiseAll rs of Inl e \<Rightarrow> Inl e | Inr xs \<Rightarrow> Inr (x # xs))"

text \<open>Modelled from the spec: the classifier predicates of \<open>./interfaces\<close>, which is
  not among the sources. An error payload has its \<open>Response\<close> flag set to false and
  includes an \<open>Error\<close> message; the other predicates compare the \<open>Type\<close> tag.\<close>

definition isError :: "payload \<Rightarrow> bool" where
  "isError data = (field data ''Response'' = Some (OStr ''False'') \<and>
                   (case field data ''Error'' of Some (OStr m) \<Rightarrow> True | _ \<Rightarrow> False))"

definition isMovie :: "payload \<Rightarrow> bool" where
  "isMovie data = (field data ''Type'' = Some (OStr ''movie''))"

definition isGame :: "payload \<Rightarrow> bool" where
  "isGame data = (field data ''Type'' = Some (OStr ''game''))"

definition isTvshow :: "payload \<Rightarrow> bool" where
  "isTvshow data = (field data ''Type'' = Some (OStr ''series''))"

definition isEpisode :: "payload \<Rightarrow> bool" where
  "isEpisode data = (field data ''Type'' = Some (OStr ''episode''))"

section \<open>TVShow.episodes\<close>

text \<open>A season response: its string-valued own properties (\<open>Season\<close>,
  \<open>Response\<close>, \<open>Error\<close>, ...) and the \<open>Episodes\<close> mapping from ordinal to
  episode payload (\<open>None\<close> when the property is missing).\<close>

record OmdbSeason =
  top :: payload
  Episodes :: "(string \<times> payload) list option"

definition seasonRequest :: "TVShow \<Rightarrow> int \<Rightarrow> request" where
  "seasonRequest tvShow i =
     \<lparr> searchParams = [(''Season'', Num i), (''apikey'', strOf (apiKey (opts tvShow))),
                         (''i'', getp (props tvShow) ''imdbid''), (''r'', Str ''json'')],
       headers = jsonHeaders,
       rtimeout = timeoutOf (opts tvShow) \<rparr>"

text \<open>\<open>for (let i = 1; i <= tvShow.totalseasons; i++)\<close>; the test is false for
  \<open>NaN\<close>.\<close>

definition seasonNumbers :: "TVShow \<Rightarrow> int list" where
  "seasonNumbers tvShow = (case totalseasons tvShow of None \<Rightarrow> [] | Some n \<Rightarrow> [1..n])"

text \<open>The inner loop: one \<open>Episode\<close> per own property of \<open>datum.Episodes\<close>.\<close>

fun pushEpisodes :: "host \<Rightarrow> jsval \<Rightarrow> jsobj list \<Rightarrow> payload list \<Rightarrow> error + jsobj list" where
  "pushEpisodes h season eps [] = Inr eps"
| "pushEpisodes h season eps (ep # rest) =
     (case Episode h ep season of
        Inl e \<Rightarrow> Inl e
      | Inr x \<Rightarrow> pushEpisodes h season (eps @ [x]) rest)"

definition ownValues :: "(string \<times> 'a) list \<Rightarrow> 'a list" where
  "ownValues m = map (\<lambda>k. the (map_of m k)) (map fst m)"

text \<open>The outer loop of the \<open>then\<close> callback.\<close>

fun collect :: "host \<Rightarrow> jsobj list \<Rightarrow> OmdbSeason list \<Rightarrow> error + jsobj list" where
  "collect h eps [] = Inr eps"
| "collect h eps (datum # rest) =
     (if isError (top datum) then Inl (ImdbError (rawString h (field (top datum) ''Error'')))
      else (let season = numOf (parseInt h (field (top datum) ''Season'')) in
            case Episodes datum of
              None \<Rightarrow> Inl (TypeError ''Cannot convert undefined or null to object'')
            | Some m \<Rightarrow>
                (case pushEpisodes h season eps (ownValues m) of
                   Inl e \<Rightarrow> Inl e
                 | Inr eps1 \<Rightarrow> collect h eps1 rest)))"

text \<open>\<open>tvShow.episodes()\<close>: the outcome, the show afterwards, and the requests handed
  to the transport, in order.\<close>

definition episodes ::
  "host \<Rightarrow> (request \<Rightarrow> error + OmdbSeason) \<Rightarrow> TVShow \<Rightarrow>
     jsobj list outcome \<times> TVShow \<times> request list" where
  "episodes h ky tvShow =
     (if length (episodesCache tvShow) \<noteq> 0 then (Resolved (episodesCache tvShow), tvShow, [])
      else (let reqs = map (seasonRequest tvShow) (seasonNumbers tvShow) in
            case promiseAll (map ky reqs) of
              Inl e \<Rightarrow> (Rejected e, tvShow, reqs)
            | Inr epData \<Rightarrow>
                (case collect h [] epData of
                   Inl e \<Rightarrow> (Rejected e, tvShow, reqs)
                 | Inr eps \<Rightarrow> (Resolved eps, tvShow\<lparr>episodesCache := eps\<rparr>, reqs))))"

section \<open>Client and the module-level get\<close>

record MovieRequest =
  req_name :: "string option"
  req_id :: "string option"
  req_year :: "int option"
  short_plot :: "bool option"

text \<open>Truthiness of an optional string: present and not empty.\<close>

definition truthyStr :: "string option \<Rightarrow> bool" where
  "truthyStr s = (case s of None \<Rightarrow> False | Some x \<Rightarrow> x \<noteq> [])"

definition optStr :: "string option \<Rightarrow> jsval" where
  "optStr s = (case s of None \<Rightarrow> Undefined | Some x \<Rightarrow> Str x)"

text \<open>A \<open>Client\<close> holds its options; the constructor throws without an own
  \<open>apiKey\<close> property.\<close>

record Client =
  copts :: MovieOpts

definition Client :: "MovieOpts \<Rightarrow> error + Client" where
  "Client os = (if apiKey os = Missing then Inl (ImdbError ''Missing api key in opts'')
                else Inr \<lparr> copts = os \<rparr>)"

text \<open>\<open>{ ...this.opts, ...opts }\<close>: an own property of the override wins.\<close>

definition spread :: "MovieOpts \<Rightarrow> MovieOpts \<Rightarrow> MovieOpts" where
  "spread a b = \<lparr> apiKey = (if apiKey b = Missing then apiKey a else apiKey b),
                    timeout = (if timeout b = Missing then timeout a else timeout b) \<rparr>"

definition mergeOpts :: "Client \<Rightarrow> MovieOpts option \<Rightarrow> MovieOpts" where
  "mergeOpts this os = (case os of Some ov \<Rightarrow> spread (copts this) ov
                                 | None \<Rightarrow> spread (copts this) \<lparr> apiKey = Missing, timeout = Missing \<rparr>)"

datatype media = AMovie jsobj | AGame jsobj | ATVShow TVShow | AnEpisode jsobj

definition wrap :: "('a \<Rightarrow> media) \<Rightarrow> error + 'a \<Rightarrow> media outcome" where
  "wrap c r = (case r of Inl e \<Rightarrow> Rejected e | Inr x \<Rightarrow> Resolved (c x))"

text \<open>The \<open>then\<close> callback of \<open>Client.get\<close>.\<close>

definition getThen :: "host \<Rightarrow> MovieRequest \<Rightarrow> MovieOpts \<Rightarrow> payload \<Rightarrow> media outcome" where
  "getThen h req os data =
     (if isError data then
        Rejected (ImdbError (rawString h (field data ''Error'') @ '': '' @
           toString h (if truthyStr (req_name req) then optStr (req_name req)
                       else optStr (req_id req))))
      else if isMovie data then wrap AMovie (Movie h data)
      else if isGame data then wrap AGame (Game h data)
      else if isTvshow data then wrap ATVShow (TVShow h data os)
      else if isEpisode data then wrap AnEpisode (Episode h data Undefined)
      else Rejected (ImdbError (''type: '' @ [CHR 0x27] @ rawString h (field data ''Type'') @
                                 [CHR 0x27] @ '' is not valid'')))"

text \<open>The transport call of \<open>Client.get\<close> with the finished query string, and
  the \<open>then\<close> callback on its result.\<close>

definition getSend ::
  "host \<Rightarrow> (request \<Rightarrow> error + payload) \<Rightarrow> MovieRequest \<Rightarrow> MovieOpts \<Rightarrow>
     (string \<times> jsval) list \<Rightarrow> media outcome \<times> request list" where
  "getSend h ky req os qs =
     (let reqopts = \<lparr> searchParams = qs, headers = jsonHeaders, rtimeout = timeoutOf os \<rparr>
      in case ky reqopts of
           Inl e \<Rightarrow> (Rejected e, [reqopts])
         | Inr data \<Rightarrow> (getThen h req os data, [reqopts]))"

text \<open>\<open>client.get(req, opts)\<close>: the outcome and the requests handed to the
  transport.\<close>

definition Client_get ::
  "host \<Rightarrow> (request \<Rightarrow> error + payload) \<Rightarrow> Client \<Rightarrow> MovieRequest \<Rightarrow> MovieOpts option \<Rightarrow>
     media outcome \<times> request list" where
  "Client_get h ky this req overrides =
     (let os = mergeOpts this overrides;
          qs = [(''apikey'', strOf (apiKey os)),
                (''plot'', Str (if short_plot req = Some True then ''short'' else ''full'')),
                (''r'', Str ''json'')];
          qs1 = (case req_year req of None \<Rightarrow> qs | Some y \<Rightarrow> qs @ [(''y'', Str (showInt y))])
      in if truthyStr (req_name req) then
           getSend h ky req os (qs1 @ [(''t'', optStr (req_name req))])
         else if truthyStr (req_id req) then
           getSend h ky req os (qs1 @ [(''i'', optStr (req_id req))])
         else (Rejected (ImdbError ''Missing one of req.id or req.name''), []))"

text \<open>The module-level \<open>get\<close>: a throw of the constructor is caught and returned
  as a rejected promise.\<close>

definition get ::
  "host \<Rightarrow> (request \<Rightarrow> error + payload) \<Rightarrow> MovieRequest \<Rightarrow> MovieOpts \<Rightarrow>
     media outcome \<times> request list" where
  "get h ky req os =
     (case Client os of
        Inl e \<Rightarrow> (Rejected e, [])
      | Inr c \<Rightarrow> (case Client_get h ky c req None of
                    (Throws e, sent) \<Rightarrow> (Rejected e, sent)
                  | r \<Rightarrow> r))"

section \<open>Search\<close>

record SearchRequest =
  sname :: string
  reqtype :: "string option"
  syear :: "int option"

text \<open>A value of a search response: a string, or the \<open>Search\<close> array of result
  objects.\<close>

datatype sval = SStr string | SList "payload list"

type_synonym OmdbSearch = "(string \<times> sval) list"

text \<open>The values a \<open>SearchResults\<close> object holds: numbers, strings, the stored
  request and options, and arrays whose elements are \<open>SearchResult\<close> objects or
  upstream result objects.\<close>

datatype selem = Built jsobj | RawResult payload

datatype sjs =
    SUndefined
  | SNum int
  | SNaN
  | SString string
  | SReq SearchRequest
  | SOpts MovieOpts
  | SArr "selem list"

type_synonym sobj = "string \<Rightarrow> sjs option"

definition gets :: "sobj \<Rightarrow> string \<Rightarrow> sjs" where
  "gets this k = (case this k of None \<Rightarrow> SUndefined | Some v \<Rightarrow> v)"

definition sets :: "sobj \<Rightarrow> string \<Rightarrow> sjs \<Rightarrow> sobj" where
  "sets this k v = (if k = ''__proto__'' then this else this(k \<mapsto> v))"

fun ofS :: "sval \<Rightarrow> sjs" where
  "ofS (SStr s) = SString s"
| "ofS (SList ps) = SArr (map RawResult ps)"

definition sString :: "sjs \<Rightarrow> string" where
  "sString v = (case v of
       SUndefined \<Rightarrow> ''undefined''
     | SNum n \<Rightarrow> showInt n
     | SNaN \<Rightarrow> ''NaN''
     | SString s \<Rightarrow> s
     | SReq r \<Rightarrow> ''[object Object]''
     | SOpts os \<Rightarrow> ''[object Object]''
     | SArr xs \<Rightarrow> joinComma (map (\<lambda>_. ''[object Object]'') xs))"

text \<open>The code points of a UTF-8 string: a continuation byte belongs to the code
  point of the byte before it.\<close>

fun codePoints :: "string \<Rightarrow> string list" where
  "codePoints [] = []"
| "codePoints (c # cs) =
     (case (cs, codePoints cs) of
        (d # ds, g # gs) \<Rightarrow> if isContinuation d then (c # g) # gs else [c] # g # gs
      | _ \<Rightarrow> [[c]])"

text \<open>\<open>new SearchResult(obj)\<close> for a result object.\<close>

definition resultAttr :: "host \<Rightarrow> payload \<Rightarrow> jsobj \<Rightarrow> string \<Rightarrow> jsobj" where
  "resultAttr h obj this attr =
     (if attr = ''Year'' then setp this (toLowerCase attr) (numOf (parseInt h (field obj attr)))
      else (case field obj attr of
              None \<Rightarrow> this
            | Some v \<Rightarrow> setp this (toLowerCase attr) (ofRaw v)))"

definition SearchResult :: "host \<Rightarrow> payload \<Rightarrow> jsobj" where
  "SearchResult h obj =
     (let this = foldl (resultAttr h obj) Map.empty (map fst obj)
      in setp this ''name'' (getp this ''title''))"

text \<open>\<open>new SearchResult(c)\<close> for a one-code-point string, which is what iterating a
  string yields: its own property names are the indices of its code units and
  \<open>length\<close>.\<close>

definition SearchResultOfChar :: "host \<Rightarrow> string \<Rightarrow> jsobj" where
  "SearchResultOfChar h c =
     (let us = codeUnits h c;
          this = foldl (\<lambda>t i. setp t (showNat i) (Str (us ! i))) Map.empty [0..<length us];
          this1 = setp this ''length'' (Num (int (length us)))
      in setp this1 ''name'' (getp this1 ''title''))"

text \<open>The objects that \<open>for (const result of obj.Search)\<close> builds.\<close>

definition builtResults :: "host \<Rightarrow> sval \<Rightarrow> selem list" where
  "builtResults h v = (case v of
       SList ps \<Rightarrow> map (\<lambda>p. Built (SearchResult h p)) ps
     | SStr s \<Rightarrow> map (\<lambda>c. Built (SearchResultOfChar h c)) (codePoints s))"

definition searchAttr :: "host \<Rightarrow> OmdbSearch \<Rightarrow> sobj \<Rightarrow> string \<Rightarrow> error + sobj" where
  "searchAttr h obj this attr =
     (case map_of obj attr of
        None \<Rightarrow> Inr this
      | Some v \<Rightarrow>
          if attr = ''Search'' then
            (if builtResults h v = [] then Inr this
             else (case gets this ''results'' of
                SArr rs \<Rightarrow> Inr (sets this ''results'' (SArr (rs @ builtResults h v)))
              | _ \<Rightarrow> Inl (TypeError ''this.results.push is not a function'')))
          else if attr = ''totalResults'' then
            Inr (sets this (toLowerCase attr)
                   (case parseIntStr (sString (ofS v)) of None \<Rightarrow> SNaN | Some n \<Rightarrow> SNum n))
          else Inr (sets this (toLowerCase attr) (ofS v)))"

fun searchLoop :: "host \<Rightarrow> OmdbSearch \<Rightarrow> sobj \<Rightarrow> string list \<Rightarrow> error + sobj" where
  "searchLoop h obj this [] = Inr this"
| "searchLoop h obj this (attr # attrs) =
     (case searchAttr h obj this attr of
        Inl e \<Rightarrow> Inl e
      | Inr this1 \<Rightarrow> searchLoop h obj this1 attrs)"

text \<open>\<open>new SearchResults(obj, page, opts, req)\<close>.\<close>

definition SearchResults ::
  "host \<Rightarrow> OmdbSearch \<Rightarrow> sjs \<Rightarrow> MovieOpts \<Rightarrow> sjs \<Rightarrow> error + sobj" where
  "SearchResults h obj page os req =
     (let this0 = sets Map.empty ''results'' (SArr []);
          this1 = sets this0 ''page'' page;
          this2 = sets this1 ''req'' req;
          this3 = sets this2 ''opts'' (SOpts os)
      in searchLoop h obj this3 (map fst obj))"

text \<open>\<open>req.name\<close> as a string: the name of a request; \<open>undefined\<close> for any other
  value that is not \<open>undefined\<close> itself.\<close>

definition nameOf :: "sjs \<Rightarrow> string" where
  "nameOf req = (case req of SReq r \<Rightarrow> sname r | _ \<Rightarrow> ''undefined'')"

definition yearOf :: "sjs \<Rightarrow> int option" where
  "yearOf req = (case req of SReq r \<Rightarrow> syear r | _ \<Rightarrow> None)"

definition reqtypeOf :: "sjs \<Rightarrow> string option" where
  "reqtypeOf req = (case req of SReq r \<Rightarrow> reqtype r | _ \<Rightarrow> None)"

text \<open>\<open>reqtoqueryobj\<close>; \<open>URLSearchParams\<close> turns every value into a string. Reading
  \<open>req.name\<close> of \<open>undefined\<close> throws.\<close>

definition reqtoqueryobj :: "host \<Rightarrow> sjs \<Rightarrow> string pval \<Rightarrow> sjs \<Rightarrow> error + (string \<times> jsval) list" where
  "reqtoqueryobj h req apikey page =
     (if req = SUndefined then
        Inl (TypeError ''Cannot read properties of undefined (reading name)'')
      else
        (let r = [(''apikey'', Str (toString h (strOf apikey))), (''s'', Str (nameOf req)),
                  (''page'', Str (sString page)), (''r'', Str ''json'')];
             r1 = (case yearOf req of None \<Rightarrow> r | Some y \<Rightarrow> r @ [(''y'', Str (showInt y))]);
             r2 = (case reqtypeOf req of None \<Rightarrow> r1 | Some t \<Rightarrow> r1 @ [(''type'', Str t)])
         in Inr r2))"

text \<open>Modelled from the spec: the error classifier of \<open>./interfaces\<close> on a search
  response (see \<open>isError\<close>).\<close>

definition isErrorS :: "OmdbSearch \<Rightarrow> bool" where
  "isErrorS data = (map_of data ''Response'' = Some (SStr ''False'') \<and>
                    (case map_of data ''Error'' of Some (SStr m) \<Rightarrow> True | _ \<Rightarrow> False))"

definition errorOfS :: "OmdbSearch \<Rightarrow> string" where
  "errorOfS data = (case map_of data ''Error'' of None \<Rightarrow> ''undefined''
                                                 | Some v \<Rightarrow> sString (ofS v))"

text \<open>\<open>client.search(req, page, opts)\<close>: the outcome and the requests handed to the
  transport. \<open>req\<close> and \<open>page\<close> are whatever the caller passes: \<open>next\<close> passes
  the stored properties of a page.\<close>

definition Client_search ::
  "host \<Rightarrow> (request \<Rightarrow> error + OmdbSearch) \<Rightarrow> Client \<Rightarrow> sjs \<Rightarrow> sjs \<Rightarrow> MovieOpts option \<Rightarrow>
     sobj outcome \<times> request list" where
  "Client_search h ky this req page overrides =
     (let os = mergeOpts this overrides;
          page1 = (if page = SUndefined then SNum 1 else page)
      in case reqtoqueryobj h req (apiKey os) page1 of
           Inl e \<Rightarrow> (Throws e, [])
         | Inr qs \<Rightarrow>
             (let reqopts = \<lparr> searchParams = qs, headers = jsonHeaders,
                              rtimeout = timeoutOf os \<rparr>
              in case ky reqopts of
                   Inl e \<Rightarrow> (Rejected e, [reqopts])
                 | Inr data \<Rightarrow>
                     if isErrorS data then
                       (Rejected (ImdbError (errorOfS data @ '': '' @ nameOf req)), [reqopts])
                     else (case SearchResults h data page1 os req of
                             Inl e \<Rightarrow> (Rejected e, [reqopts])
                           | Inr sr \<Rightarrow> (Resolved sr, [reqopts]))))"

text \<open>The module-level \<open>search\<close>: \<open>new Client(opts).search(req, page)\<close>, with no
  handler around the constructor. \<open>hasOwnProperty\<close> throws on \<open>undefined\<close> and is
  false on a value that is not an options object.\<close>

definition search ::
  "host \<Rightarrow> (request \<Rightarrow> error + OmdbSearch) \<Rightarrow> sjs \<Rightarrow> sjs \<Rightarrow> sjs \<Rightarrow>
     sobj outcome \<times> request list" where
  "search h ky req os page =
     (case os of
        SOpts o1 \<Rightarrow> (case Client o1 of
                      Inl e \<Rightarrow> (Throws e, [])
                    | Inr c \<Rightarrow> Client_search h ky c req page None)
      | SUndefined \<Rightarrow> (Throws (TypeError ''Cannot convert undefined or null to object''), [])
      | _ \<Rightarrow> (Throws (ImdbError ''Missing api key in opts''), []))"

text \<open>\<open>this.page + 1\<close>: addition on a number, concatenation on anything else.\<close>

definition plusOne :: "sjs \<Rightarrow> sjs" where
  "plusOne v = (case v of
       SNum n \<Rightarrow> SNum (n + 1)
     | SNaN \<Rightarrow> SNaN
     | SUndefined \<Rightarrow> SNaN
     | _ \<Rightarrow> SString (sString v @ ''1''))"

definition "next" ::
  "host \<Rightarrow> (request \<Rightarrow> error + OmdbSearch) \<Rightarrow> sobj \<Rightarrow> sobj outcome \<times> request list" where
  "next h ky this = search h ky (gets this ''req'') (gets this ''opts'') (plusOne (gets this ''page''))"

section \<open>Sample inputs\<close>

definition testHost :: host where
  "testHost = \<lparr> parseFloat = (\<lambda>s. if s = ''7.5'' then Some (15 / 2) else None),
                dateParse = (\<lambda>s. if s = ''2015-01-01'' then Some 1420070400000 else None),
                showHost = (\<lambda>v. ''?''),
                protoKey = (\<lambda>k. ''[native]''),
                codeUnits = (\<lambda>c. [c]) \<rparr>"

definition sampleShow :: payload where
  "sampleShow = [(''Title'', OStr ''Foo''), (''Year'', OStr ''2015-2019''),
                 (''Released'', OStr ''N/A''), (''imdbRating'', OStr ''7.5''),
                 (''Type'', OStr ''series''), (''imdbID'', OStr ''tt1''),
                 (''Season'', OStr ''1''), (''totalSeasons'', OStr ''2'')]"

definition sampleOpts :: MovieOpts where
  "sampleOpts = \<lparr> apiKey = Val ''key'', timeout = Missing \<rparr>"

definition yearPlain :: payload where
  "yearPlain = [(''Title'', OStr ''Foo''), (''Year'', OStr ''2015''), (''Type'', OStr ''movie''),
                (''Released'', OStr ''2015-01-01''), (''DVD'', OStr ''N/A'')]"

definition yearBad :: payload where
  "yearBad = [(''Title'', OStr ''Foo''), (''Year'', OStr ''N/A''), (''Type'', OStr ''movie'')]"

definition showWithYear :: "string \<Rightarrow> payload" where
  "showWithYear y = [(''Title'', OStr ''Foo''), (''Year'', OStr y), (''Type'', OStr ''series''),
                     (''imdbID'', OStr ''tt1''), (''totalSeasons'', OStr ''2'')]"

text \<open>The start and end year of a constructed show.\<close>

definition yearsOf :: "error + TVShow \<Rightarrow> (int option \<times> int option) option" where
  "yearsOf r = (case r of Inl e \<Rightarrow> None | Inr tv \<Rightarrow> Some (start_year tv, end_year tv))"

definition sampleTV :: TVShow where
  "sampleTV = \<lparr> props = [''imdbid'' \<mapsto> Str ''tt1'', ''title'' \<mapsto> Str ''Foo''],
                start_year = Some 2015, end_year = Some 2019, totalseasons = Some 2,
                episodesCache = [], opts = sampleOpts \<rparr>"

definition episodePayload :: "string \<Rightarrow> string \<Rightarrow> payload" where
  "episodePayload y n = [(''Title'', OStr ''Part''), (''Year'', OStr y), (''Season'', OStr ''9''),
                         (''Episode'', OStr n), (''Type'', OStr ''episode'')]"

definition seasonPayload :: "string \<Rightarrow> payload list \<Rightarrow> OmdbSeason" where
  "seasonPayload s eps = \<lparr> top = [(''Title'', OStr ''Foo''), (''Season'', OStr s),
                                   (''Response'', OStr ''True'')],
                            Episodes = Some (zip (map showNat [0..<length eps]) eps) \<rparr>"

definition errorPayload :: "string \<Rightarrow> OmdbSeason" where
  "errorPayload m = \<lparr> top = [(''Response'', OStr ''False''), (''Error'', OStr m)],
                       Episodes = None \<rparr>"

text \<open>A transport that answers a season request from a table of responses.\<close>

definition tableKy :: "(int \<times> OmdbSeason) list \<Rightarrow> request \<Rightarrow> error + OmdbSeason" where
  "tableKy tab r = (case map_of (searchParams r) ''Season'' of
       Some (Num i) \<Rightarrow> (case map_of tab i of Some d \<Rightarrow> Inr d
                                        | None \<Rightarrow> Inl (TransportError ''404''))
     | _ \<Rightarrow> Inl (TransportError ''404''))"

text \<open>The upstream answers the request for season 1 with a season marked 5.\<close>

definition conflictingKy :: "request \<Rightarrow> error + OmdbSeason" where
  "conflictingKy = tableKy [(1, seasonPayload ''5'' [episodePayload ''2015'' ''1'']),
                            (2, seasonPayload ''2'' [episodePayload ''2016'' ''1'',
                                                     episodePayload ''2016'' ''2''])]"

text \<open>Season 1 holds an episode whose year does not parse; season 2 is an error.\<close>

definition brokenKy :: "request \<Rightarrow> error + OmdbSeason" where
  "brokenKy = tableKy [(1, seasonPayload ''1'' [episodePayload ''N/A'' ''1'']),
                       (2, errorPayload ''Series or season not found!'')]"

definition failingKy :: "request \<Rightarrow> error + OmdbSeason" where
  "failingKy = tableKy [(1, seasonPayload ''1'' [episodePayload ''2015'' ''1'']),
                        (2, errorPayload ''Series or season not found!'')]"

definition emptyKy :: "request \<Rightarrow> error + OmdbSeason" where
  "emptyKy = tableKy [(1, seasonPayload ''1'' []), (2, seasonPayload ''2'' [])]"

text \<open>A season response whose \<open>Episodes\<close> is a JSON array: its own property names
  are the indices and \<open>length\<close>, and the number under \<open>length\<close> has no own
  property, so the \<open>Episode\<close> built from it copies nothing.\<close>

definition arraySeason :: "string \<Rightarrow> payload list \<Rightarrow> OmdbSeason" where
  "arraySeason s eps = \<lparr> top = [(''Title'', OStr ''Foo''), (''Season'', OStr s),
                                 (''Response'', OStr ''True'')],
                          Episodes = Some (zip (map showNat [0..<length eps]) eps @
                                           [(''length'', [])]) \<rparr>"

definition arrayKy :: "request \<Rightarrow> error + OmdbSeason" where
  "arrayKy = tableKy [(1, arraySeason ''1'' []), (2, arraySeason ''2'' [])]"

text \<open>A transport on which every request fails.\<close>

definition downKy :: "request \<Rightarrow> error + OmdbSeason" where
  "downKy r = Inl (TransportError ''down'')"

text \<open>The \<open>season\<close> of each episode of a resolved list, and the \<open>Season\<close> parameter
  of each request.\<close>

definition seasonsOf :: "jsobj list outcome \<Rightarrow> jsval list option" where
  "seasonsOf r = (case r of Resolved eps \<Rightarrow> Some (map (\<lambda>e. getp e ''season'') eps) | _ \<Rightarrow> None)"

definition requestedSeasons :: "request list \<Rightarrow> jsval option list" where
  "requestedSeasons rs = map (\<lambda>r. map_of (searchParams r) ''Season'') rs"

text \<open>The error of a rejected promise.\<close>

definition rejectionOf :: "'a outcome \<Rightarrow> error option" where
  "rejectionOf r = (case r of Rejected e \<Rightarrow> Some e | _ \<Rightarrow> None)"

text \<open>A transport that answers every lookup with the same movie.\<close>

definition movieKy :: "request \<Rightarrow> error + payload" where
  "movieKy r = Inr yearPlain"

definition sampleClient :: Client where
  "sampleClient = \<lparr> copts = sampleOpts \<rparr>"

definition requestOf :: "string option \<Rightarrow> string option \<Rightarrow> MovieRequest" where
  "requestOf n i = \<lparr> req_name = n, req_id = i, req_year = None, short_plot = None \<rparr>"

definition sampleSearch :: SearchRequest where
  "sampleSearch = \<lparr> sname = ''Toxic Avenger'', reqtype = None, syear = None \<rparr>"

section \<open>Stated properties as predicates\<close>

text \<open>The two invariants of the \<open>Movie\<close> family on an object.\<close>

definition familyInvariant :: "jsobj \<Rightarrow> bool" where
  "familyInvariant this =
     (getp this ''name'' = getp this ''title'' \<and>
      getp this ''series'' = Bool (getp this ''type'' \<noteq> Str ''movie''))"

section \<open>Payloads of the declared shape\<close>

text \<open>The property that the general branches of the \<open>Movie\<close> loop write for an own
  property name: its entry in \<open>transTable\<close>, else the lower-cased name.\<close>

definition writtenKey :: "host \<Rightarrow> string \<Rightarrow> string" where
  "writtenKey h attr = (case transTable h attr of Some key \<Rightarrow> key | None \<Rightarrow> toLowerCase attr)"

text \<open>The names with a branch of their own in the loop, and the properties those
  branches maintain.\<close>

definition specialNames :: "string list" where
  "specialNames = [''Year'', ''Released'', ''DVD'', ''imdbRating'', ''Ratings'']"

definition maintained :: "string list" where
  "maintained = [''_yearData'', ''year'', ''released'', ''dvd'', ''rating'', ''ratings'']"

text \<open>A payload of the declared response shape: a JSON object (its property names are
  distinct) none of whose further properties is copied onto a property that the
  constructor maintains itself.\<close>

definition plainPayload :: "host \<Rightarrow> payload \<Rightarrow> bool" where
  "plainPayload h obj =
     (distinct (map fst obj) \<and>
      list_all (\<lambda>attr. attr \<in> set specialNames \<or> writtenKey h attr \<notin> set maintained)
               (map fst obj))"

text \<open>The \<open>Year\<close> property is there and makes the constructor throw: it is not a
  string, or it is a string that is neither a range nor starts with an integer.\<close>

definition yearFails :: "payload \<Rightarrow> bool" where
  "yearFails obj = (case field obj ''Year'' of
       None \<Rightarrow> False
     | Some (OArr rs) \<Rightarrow> True
     | Some (OStr y) \<Rightarrow> \<not> matchYearRange y \<and> parseIntStr y = None)"

text \<open>\<open>this.ratings\<close> is an array.\<close>

definition hasRatings :: "jsobj \<Rightarrow> bool" where
  "hasRatings this = (\<exists>rs. getp this ''ratings'' = Arr rs)"

text \<open>The properties that the branch of an own property name may write.\<close>

definition writes :: "host \<Rightarrow> string \<Rightarrow> string list" where
  "writes h attr =
     (if attr = ''Year'' then [''_yearData'', ''year'']
      else if attr = ''Released'' then [''released'']
      else if attr = ''DVD'' then [''dvd'']
      else if attr = ''imdbRating'' then [''rating'']
      else if attr = ''Ratings'' then [''ratings'']
      else [writtenKey h attr])"

text \<open>The number of episodes of a season response, and the season numbers that the
  responses themselves carry, once per episode.\<close>

definition episodeCount :: "OmdbSeason \<Rightarrow> nat" where
  "episodeCount datum = (case Episodes datum of None \<Rightarrow> 0 | Some m \<Rightarrow> length m)"

definition payloadSeasons :: "host \<Rightarrow> OmdbSeason list \<Rightarrow> jsval list" where
  "payloadSeasons h epData =
     concat (map (\<lambda>datum. replicate (episodeCount datum)
                              (numOf (parseInt h (field (top datum) ''Season'')))) epData)"

text \<open>\<open>this.results\<close> is an array.\<close>

definition hasResults :: "sobj \<Rightarrow> bool" where
  "hasResults this = (\<exists>rs. gets this ''results'' = SArr rs)"

text \<open>The properties that the \<open>SearchResults\<close> constructor sets itself.\<close>

definition pageState :: "string list" where
  "pageState = [''page'', ''req'', ''opts'', ''results'', ''totalresults'']"

text \<open>A search response of the declared shape: a JSON object none of whose properties
  other than \<open>Search\<close> and \<open>totalResults\<close> is copied onto a property that the
  constructor sets itself.\<close>

definition plainSearch :: "OmdbSearch \<Rightarrow> bool" where
  "plainSearch obj =
     (distinct (map fst obj) \<and>
      list_all (\<lambda>attr. attr = ''Search'' \<or> attr = ''totalResults'' \<or>
                       toLowerCase attr \<notin> set pageState) (map fst obj))"

text \<open>\<open>parseInt\<close> of the \<open>totalResults\<close> string as a property value.\<close>

definition totalOf :: "string \<Rightarrow> sjs" where
  "totalOf s = (case parseIntStr s of None \<Rightarrow> SNaN | Some n \<Rightarrow> SNum n)"

text \<open>The request for page \<open>p\<close> of a search, as the claim about pagination names it:
  the API key of the options, the name, the page number, and the optional year and type
  of the request.\<close>

definition pageRequest :: "host \<Rightarrow> MovieOpts \<Rightarrow> SearchRequest \<Rightarrow> int \<Rightarrow> request" where
  "pageRequest h os req p =
     \<lparr> searchParams =
         [(''apikey'', Str (toString h (strOf (apiKey os)))), (''s'', Str (sname req)),
          (''page'', Str (showInt p)), (''r'', Str ''json'')] @
         (case syear req of None \<Rightarrow> [] | Some y \<Rightarrow> [(''y'', Str (showInt y))]) @
         (case reqtype req of None \<Rightarrow> [] | Some t \<Rightarrow> [(''type'', Str t)]),
       headers = jsonHeaders,
       rtimeout = timeoutOf os \<rparr>"

text \<open>The \<open>page\<close> argument of a call: omitted, or a number.\<close>

definition pageArg :: "int option \<Rightarrow> sjs" where
  "pageArg pg = (case pg of None \<Rightarrow> SUndefined | Some n \<Rightarrow> SNum n)"

definition pageNumber :: "int option \<Rightarrow> int" where
  "pageNumber pg = (case pg of None \<Rightarrow> 1 | Some n \<Rightarrow> n)"

definition searchData :: OmdbSearch where
  "searchData = [(''Search'', SList [[(''Title'', OStr ''The Toxic Avenger''), (''Year'', OStr ''1984''),
                                      (''imdbID'', OStr ''tt0090190''), (''Type'', OStr ''movie'')],
                                     [(''Title'', OStr ''The Toxic Avenger Part II''), (''Year'', OStr ''1989''),
                                      (''imdbID'', OStr ''tt0098503''), (''Type'', OStr ''movie'')]]),
                 (''totalResults'', SStr ''25''), (''Response'', SStr ''True'')]"

definition searchKy :: "request \<Rightarrow> error + OmdbSearch" where
  "searchKy r = Inr searchData"

section \<open>Properties\<close>

subsection \<open>Property bags\<close>

lemma getp_setp_other: "k \<noteq> k' \<Longrightarrow> getp (setp this k v) k' = getp this k'"
  by (simp add: setp_def getp_def)

lemma getp_setp_same: "k \<noteq> ''__proto__'' \<Longrightarrow> getp (setp this k v) k = v"
  by (simp add: setp_def getp_def)

subsection \<open>The invariants of the Movie family\<close>

lemma movieFinish_invariant: "familyInvariant (movieFinish h this)"
  by (simp add: familyInvariant_def movieFinish_def setp_def getp_def Let_def)

lemma Movie_invariant: "Movie h obj = Inr m \<Longrightarrow> familyInvariant m"
  by (auto simp: Movie_def movieFinish_invariant split: sum.splits)

lemma familyInvariant_setp:
  "familyInvariant this \<Longrightarrow> k \<notin> {''name'', ''title'', ''series'', ''type''} \<Longrightarrow>
   familyInvariant (setp this k v)"
  unfolding familyInvariant_def by (simp add: getp_setp_other)

lemma Episode_invariant: "Episode h obj s = Inr m \<Longrightarrow> familyInvariant m"
  by (auto simp: Episode_def familyInvariant_setp dest!: Movie_invariant
           split: sum.splits if_splits option.splits)

lemma TVShow_invariant: "TVShow h obj os = Inr tv \<Longrightarrow> familyInvariant (props tv)"
  by (auto simp: TVShow_def Let_def dest!: Movie_invariant split: sum.splits jsval.splits)

lemma episodes_props: "props (fst (snd (episodes h ky tv))) = props tv"
  by (simp add: episodes_def Let_def split: sum.splits)

text \<open>
  C4. Every record of the Movie family that is constructed successfully (\<open>Movie\<close>,
  \<open>Game\<close>, \<open>Episode\<close> with or without a season argument, \<open>TVShow\<close>) has
  \<open>name === title\<close> and \<open>series === (type !== "movie")\<close>. The only method that
  changes a record afterwards, \<open>TVShow.episodes\<close>, writes the episode cache alone and
  leaves the properties, hence both invariants, as they were.
\<close>

theorem movie_family_invariants:
  "(Movie h obj = Inr m \<longrightarrow> familyInvariant m) \<and>
   (Game h obj = Inr g \<longrightarrow> familyInvariant g) \<and>
   (Episode h obj season = Inr e \<longrightarrow> familyInvariant e) \<and>
   (TVShow h obj os = Inr tv \<longrightarrow>
      familyInvariant (props tv) \<and> familyInvariant (props (fst (snd (episodes h ky tv)))))"
  by (simp add: Movie_invariant Episode_invariant TVShow_invariant episodes_props Game_def)

theorem movie_family_invariants_witness:
  "\<exists>m g e tv.
     Movie testHost sampleShow = Inr m \<and> familyInvariant m \<and>
     Game testHost sampleShow = Inr g \<and> familyInvariant g \<and>
     Episode testHost sampleShow Undefined = Inr e \<and> familyInvariant e \<and>
     TVShow testHost sampleShow sampleOpts = Inr tv \<and> familyInvariant (props tv) \<and>
     familyInvariant (props (fst (snd (episodes testHost (\<lambda>r. Inl (TransportError ''down'')) tv))))"
proof -
  have "\<not> isl (Movie testHost sampleShow)" by code_simp
  then obtain m where m: "Movie testHost sampleShow = Inr m"
    by (cases "Movie testHost sampleShow") auto
  have "\<not> isl (Episode testHost sampleShow Undefined)" by code_simp
  then obtain e where e: "Episode testHost sampleShow Undefined = Inr e"
    by (cases "Episode testHost sampleShow Undefined") auto
  have "\<not> isl (TVShow testHost sampleShow sampleOpts)" by code_simp
  then obtain tv where tv: "TVShow testHost sampleShow sampleOpts = Inr tv"
    by (cases "TVShow testHost sampleShow sampleOpts") auto
  have g: "Game testHost sampleShow = Inr m" using m by (simp add: Game_def)
  from movie_family_invariants [of testHost sampleShow m m Undefined e sampleOpts tv
      "\<lambda>r. Inl (TransportError ''down'')"] m g e tv
  show ?thesis by simp
qed

subsection \<open>The loop of the Movie constructor, branch by branch\<close>

lemma movieLoop_append:
  "movieLoop h obj this (xs @ ys) =
     (case movieLoop h obj this xs of Inl e \<Rightarrow> Inl e | Inr t \<Rightarrow> movieLoop h obj t ys)"
  by (induction xs arbitrary: this) (auto split: sum.splits)

lemma special_not_trans:
  "transTable h ''Year'' = None" "transTable h ''Released'' = None"
  "transTable h ''DVD'' = None" "transTable h ''Ratings'' = None"
  by (simp_all add: transTable_def objectProtoNames_def)

lemma lower_Year: "toLowerCase ''Year'' = ''year''"
  by (simp add: toLowerCase_def toLowerChar_def)

lemma movieAttr_Year:
  "field obj ''Year'' = Some (OStr y) \<Longrightarrow>
   movieAttr h obj this ''Year'' =
     (if matchYearRange y then Inr (setp this ''_yearData'' (Str y))
      else (case parseIntStr y of
              None \<Rightarrow> Inl (TypeError ''invalid year'')
            | Some val \<Rightarrow> Inr (setp (setp this ''_yearData'' (Str y)) ''year'' (Num val))))"
  by (simp add: movieAttr_def Let_def lower_Year split: option.splits)

lemma movieAttr_Year_array:
  "field obj ''Year'' = Some (OArr rs) \<Longrightarrow>
   movieAttr h obj this ''Year'' = Inl (TypeError ''obj[attr].match is not a function'')"
  by (simp add: movieAttr_def)

lemma movieAttr_Released:
  "field obj ''Released'' = Some v \<Longrightarrow>
   movieAttr h obj this ''Released'' = Inr (setp this ''released'' (newDate h v))"
  by (simp add: movieAttr_def)

lemma movieAttr_DVD:
  "field obj ''DVD'' = Some v \<Longrightarrow>
   movieAttr h obj this ''DVD'' = Inr (setp this ''dvd'' (newDate h v))"
  by (simp add: movieAttr_def)

lemma movieAttr_imdbRating:
  "field obj ''imdbRating'' = Some v \<Longrightarrow>
   movieAttr h obj this ''imdbRating'' =
     Inr (setp this ''rating'' (case parseFloat h (toString h (ofRaw v)) of
                                  None \<Rightarrow> Num 0 | Some val \<Rightarrow> Flt val))"
  by (simp add: movieAttr_def)

lemma movieAttr_Ratings:
  "field obj ''Ratings'' = Some v \<Longrightarrow>
   movieAttr h obj this ''Ratings'' =
     (if pushedRatings v = [] then Inr this
      else (case getp this ''ratings'' of
              Arr rs \<Rightarrow> Inr (setp this ''ratings'' (Arr (rs @ pushedRatings v)))
            | _ \<Rightarrow> Inl (TypeError ''this.ratings.push is not a function'')))"
  by (simp add: movieAttr_def special_not_trans)

lemma movieAttr_general:
  "attr \<notin> set specialNames \<Longrightarrow> field obj attr = Some v \<Longrightarrow>
   movieAttr h obj this attr = Inr (setp this (writtenKey h attr) (ofRaw v))"
  by (simp add: movieAttr_def specialNames_def writtenKey_def split: option.splits)

lemma movieAttr_missing: "field obj attr = None \<Longrightarrow> movieAttr h obj this attr = Inr this"
  by (simp add: movieAttr_def)



lemma hasRatings_setp: "k \<noteq> ''ratings'' \<Longrightarrow> hasRatings (setp this k v) = hasRatings this"
  by (simp add: hasRatings_def getp_setp_other)

lemma hasRatings_set: "hasRatings (setp this ''ratings'' (Arr rs))"
  by (simp add: hasRatings_def getp_setp_same)

lemma field_Some: "attr \<in> set (map fst obj) \<Longrightarrow> \<exists>v. field obj attr = Some v"
  by (cases "map_of obj attr") (auto simp: field_def map_of_eq_None_iff)

lemma movieAttr_ok:
  assumes r: "hasRatings this"
    and pl: "attr \<in> set specialNames \<or> writtenKey h attr \<notin> set maintained"
    and y: "attr = ''Year'' \<longrightarrow> \<not> yearFails obj"
  shows "\<exists>t. movieAttr h obj this attr = Inr t \<and> hasRatings t"
proof (cases "field obj attr")
  case None
  then show ?thesis using r by (simp add: movieAttr_missing)
next
  case (Some v)
  consider (year) "attr = ''Year''" | (rel) "attr = ''Released''" | (dvd) "attr = ''DVD''"
    | (rat) "attr = ''imdbRating''" | (rats) "attr = ''Ratings''" | (gen) "attr \<notin> set specialNames"
    by (auto simp: specialNames_def)
  then show ?thesis
  proof cases
    case year
    with y Some obtain s where s: "v = OStr s" "matchYearRange s \<or> parseIntStr s \<noteq> None"
      by (cases v) (auto simp: yearFails_def)
    with Some year r show ?thesis
      by (auto simp: movieAttr_Year hasRatings_setp)
  next
    case rel
    with Some r show ?thesis by (simp add: movieAttr_Released hasRatings_setp)
  next
    case dvd
    with Some r show ?thesis by (simp add: movieAttr_DVD hasRatings_setp)
  next
    case rat
    with Some r show ?thesis by (simp add: movieAttr_imdbRating hasRatings_setp)
  next
    case rats
    from r obtain rs where "getp this ''ratings'' = Arr rs" by (auto simp: hasRatings_def)
    with Some rats r show ?thesis by (simp add: movieAttr_Ratings hasRatings_set)
  next
    case gen
    with pl have "writtenKey h attr \<noteq> ''ratings''" by (auto simp: maintained_def)
    with Some gen r show ?thesis by (simp add: movieAttr_general hasRatings_setp)
  qed
qed

subsection \<open>When the Movie constructor throws\<close>

lemma movieLoop_ok:
  assumes "hasRatings this"
    and "\<forall>attr \<in> set ks. attr \<in> set specialNames \<or> writtenKey h attr \<notin> set maintained"
    and "''Year'' \<in> set ks \<longrightarrow> \<not> yearFails obj"
  shows "\<exists>t. movieLoop h obj this ks = Inr t \<and> hasRatings t"
  using assms
proof (induction ks arbitrary: this)
  case Nil
  then show ?case by simp
next
  case (Cons k ks)
  have "\<exists>t. movieAttr h obj this k = Inr t \<and> hasRatings t"
    using Cons.prems by (intro movieAttr_ok) simp_all
  then obtain t where t: "movieAttr h obj this k = Inr t" "hasRatings t" by blast
  have "\<exists>u. movieLoop h obj t ks = Inr u \<and> hasRatings u"
    using Cons.prems t(2) by (intro Cons.IH) simp_all
  with t show ?case by simp
qed

lemma movieAttr_Year_fails:
  "yearFails obj \<Longrightarrow> isl (movieAttr h obj this ''Year'')"
proof -
  assume f: "yearFails obj"
  then obtain v where v: "field obj ''Year'' = Some v"
    by (cases "field obj ''Year''") (simp_all add: yearFails_def)
  show ?thesis
  proof (cases v)
    case (OStr y)
    with f v show ?thesis by (simp add: movieAttr_Year yearFails_def)
  next
    case (OArr rs)
    with v show ?thesis by (simp add: movieAttr_Year_array)
  qed
qed

lemma movieLoop_fails:
  "yearFails obj \<Longrightarrow> ''Year'' \<in> set ks \<Longrightarrow> isl (movieLoop h obj this ks)"
proof (induction ks arbitrary: this)
  case Nil
  then show ?case by simp
next
  case (Cons k ks)
  show ?case
  proof (cases "movieAttr h obj this k")
    case (Inl e)
    then show ?thesis by simp
  next
    case (Inr t)
    show ?thesis
    proof (cases "k = ''Year''")
      case True
      with Inr movieAttr_Year_fails [OF Cons.prems(1), of h this] show ?thesis by simp
    next
      case False
      with Cons.prems have "''Year'' \<in> set ks" by simp
      with Cons.IH [OF Cons.prems(1), of t] Inr show ?thesis by simp
    qed
  qed
qed

lemma yearFails_has: "yearFails obj \<Longrightarrow> ''Year'' \<in> set (map fst obj)"
proof -
  assume "yearFails obj"
  then obtain v where "map_of obj ''Year'' = Some v"
    by (cases "map_of obj ''Year''") (simp_all add: yearFails_def field_def)
  then have "(''Year'', v) \<in> set obj" by (rule map_of_SomeD)
  then show ?thesis by force
qed

lemma hasRatings_init: "hasRatings (setp Map.empty ''ratings'' (Arr []))"
  by (rule hasRatings_set)

lemma Movie_fails_iff:
  assumes "plainPayload h obj"
  shows "isl (Movie h obj) = yearFails obj"
proof (cases "yearFails obj")
  case True
  then have "isl (movieLoop h obj (setp Map.empty ''ratings'' (Arr [])) (map fst obj))"
    using movieLoop_fails yearFails_has by blast
  with True show ?thesis by (cases "movieLoop h obj (setp Map.empty ''ratings'' (Arr [])) (map fst obj)") (simp_all add: Movie_def)
next
  case False
  have "\<exists>t. movieLoop h obj (setp Map.empty ''ratings'' (Arr [])) (map fst obj) = Inr t \<and> hasRatings t"
  proof (rule movieLoop_ok)
    show "hasRatings (setp Map.empty ''ratings'' (Arr []))" by (rule hasRatings_init)
    show "\<forall>attr\<in>set (map fst obj). attr \<in> set specialNames \<or> writtenKey h attr \<notin> set maintained"
      using assms unfolding plainPayload_def list_all_iff by blast
    show "''Year'' \<in> set (map fst obj) \<longrightarrow> \<not> yearFails obj" using False by simp
  qed
  then obtain t where "movieLoop h obj (setp Map.empty ''ratings'' (Arr [])) (map fst obj) = Inr t" by blast
  with False show ?thesis by (simp add: Movie_def)
qed

subsection \<open>What a branch leaves alone\<close>

lemma movieAttr_frame:
  assumes "movieAttr h obj this attr = Inr t" and "p \<notin> set (writes h attr)"
  shows "getp t p = getp this p"
proof (cases "field obj attr")
  case None
  with assms show ?thesis by (simp add: movieAttr_missing)
next
  case (Some v)
  consider (year) "attr = ''Year''" | (rel) "attr = ''Released''" | (dvd) "attr = ''DVD''"
    | (rat) "attr = ''imdbRating''" | (rats) "attr = ''Ratings''" | (gen) "attr \<notin> set specialNames"
    by (auto simp: specialNames_def)
  then show ?thesis
  proof cases
    case year
    show ?thesis
    proof (cases v)
      case (OStr y)
      with assms Some year show ?thesis
        by (auto simp: movieAttr_Year writes_def getp_setp_other split: if_splits option.splits)
    next
      case (OArr rs)
      with assms Some year show ?thesis by (simp add: movieAttr_Year_array)
    qed
  next
    case rel
    with assms Some show ?thesis by (auto simp: movieAttr_Released writes_def getp_setp_other)
  next
    case dvd
    with assms Some show ?thesis by (auto simp: movieAttr_DVD writes_def getp_setp_other)
  next
    case rat
    with assms Some show ?thesis by (auto simp: movieAttr_imdbRating writes_def getp_setp_other)
  next
    case rats
    with assms Some show ?thesis
      by (auto simp: movieAttr_Ratings writes_def getp_setp_other split: if_splits jsval.splits)
  next
    case gen
    then have "writes h attr = [writtenKey h attr]" by (auto simp: writes_def specialNames_def)
    with assms Some gen show ?thesis by (auto simp: movieAttr_general getp_setp_other)
  qed
qed

lemma movieLoop_frame:
  "movieLoop h obj this ks = Inr t \<Longrightarrow> \<forall>k \<in> set ks. p \<notin> set (writes h k) \<Longrightarrow>
   getp t p = getp this p"
proof (induction ks arbitrary: this)
  case Nil
  then show ?case by simp
next
  case (Cons k ks)
  from Cons.prems(1) obtain u where u: "movieAttr h obj this k = Inr u" "movieLoop h obj u ks = Inr t"
    by (cases "movieAttr h obj this k") simp_all
  from Cons.prems(2) have a: "p \<notin> set (writes h k)" and b: "\<forall>k \<in> set ks. p \<notin> set (writes h k)"
    by simp_all
  from u(1) a have "getp u p = getp this p" by (rule movieAttr_frame)
  moreover from u(2) b have "getp t p = getp u p" by (rule Cons.IH)
  ultimately show ?case by simp
qed

lemma maintained_special:
  "K \<in> set specialNames \<Longrightarrow> p \<in> set (writes h K) \<Longrightarrow> p \<in> set maintained"
  by (auto simp: writes_def specialNames_def maintained_def split: if_splits)

lemma writes_special_distinct:
  "k \<in> set specialNames \<Longrightarrow> K \<in> set specialNames \<Longrightarrow> k \<noteq> K \<Longrightarrow>
   p \<in> set (writes h K) \<Longrightarrow> p \<notin> set (writes h k)"
  by (auto simp: writes_def specialNames_def split: if_splits)

lemma writes_disjoint:
  assumes "k \<in> set specialNames \<or> writtenKey h k \<notin> set maintained"
    and "K \<in> set specialNames" and "k \<noteq> K" and "p \<in> set (writes h K)"
  shows "p \<notin> set (writes h k)"
proof (cases "k \<in> set specialNames")
  case True
  with assms show ?thesis by (intro writes_special_distinct [of k K p h]) simp_all
next
  case False
  then have "writes h k = [writtenKey h k]" by (auto simp: writes_def specialNames_def)
  moreover have "p \<in> set maintained" using assms(2,4) by (rule maintained_special)
  ultimately show ?thesis using assms(1) False by auto
qed

lemma getp_setp_other2: "p \<noteq> k \<Longrightarrow> getp (setp this k v) p = getp this p"
  by (simp add: setp_def getp_def)

lemma movieFinish_frame:
  "p \<notin> {''name'', ''series'', ''imdburl''} \<Longrightarrow> getp (movieFinish h this) p = getp this p"
  by (simp add: movieFinish_def Let_def getp_setp_other2)

lemma writes_special_not_finish:
  "K \<in> set specialNames \<Longrightarrow> p \<in> set (writes h K) \<Longrightarrow> p \<notin> {''name'', ''series'', ''imdburl''}"
  by (auto simp: writes_def specialNames_def split: if_splits)

subsection \<open>The property written for a name with its own branch\<close>

lemma Movie_special:
  assumes plain: "plainPayload h obj"
    and K: "K \<in> set specialNames" "K \<in> set (map fst obj)"
    and m: "Movie h obj = Inr m"
    and p: "p \<in> set (writes h K)"
  shows "\<exists>this t. movieAttr h obj this K = Inr t \<and> getp m p = getp t p \<and>
                  getp this p = getp (setp Map.empty ''ratings'' (Arr [])) p"
proof -
  from K(2) obtain pre post where keys: "map fst obj = pre @ K # post"
    by (meson split_list)
  from plain have d: "distinct (pre @ K # post)"
    by (simp add: plainPayload_def keys)
  from plain have pl: "\<forall>k \<in> set (pre @ K # post). k \<in> set specialNames \<or> writtenKey h k \<notin> set maintained"
    unfolding plainPayload_def keys list_all_iff by blast
  let ?init = "setp Map.empty ''ratings'' (Arr [])"
  from m obtain fin where fin: "movieLoop h obj ?init (pre @ K # post) = Inr fin"
    and mf: "m = movieFinish h fin"
    by (cases "movieLoop h obj ?init (pre @ K # post)") (simp_all add: Movie_def keys)
  from fin obtain this where lp: "movieLoop h obj ?init pre = Inr this"
    and rest: "movieLoop h obj this (K # post) = Inr fin"
    by (cases "movieLoop h obj ?init pre") (simp_all add: movieLoop_append)
  from rest obtain t where t: "movieAttr h obj this K = Inr t" and post: "movieLoop h obj t post = Inr fin"
    by (cases "movieAttr h obj this K") simp_all
  have "\<forall>k \<in> set pre. p \<notin> set (writes h k)"
  proof
    fix k assume k: "k \<in> set pre"
    with d have "k \<noteq> K" by auto
    moreover from pl k have "k \<in> set specialNames \<or> writtenKey h k \<notin> set maintained" by simp
    ultimately show "p \<notin> set (writes h k)" using K(1) p by (intro writes_disjoint [of k h K p])
  qed
  with lp have a: "getp this p = getp ?init p"
    by (rule movieLoop_frame)
  have "\<forall>k \<in> set post. p \<notin> set (writes h k)"
  proof
    fix k assume k: "k \<in> set post"
    with d have "k \<noteq> K" by auto
    moreover from pl k have "k \<in> set specialNames \<or> writtenKey h k \<notin> set maintained" by simp
    ultimately show "p \<notin> set (writes h k)" using K(1) p by (intro writes_disjoint [of k h K p])
  qed
  with post have b: "getp fin p = getp t p"
    by (rule movieLoop_frame)
  have "getp m p = getp fin p"
    unfolding mf using writes_special_not_finish [OF K(1) p] by (rule movieFinish_frame)
  with a b t show ?thesis by auto
qed

lemma movieLoop_error_year:
  assumes "field obj ''Year'' = Some (OStr y)"
    and "hasRatings this"
    and "\<forall>attr \<in> set ks. attr \<in> set specialNames \<or> writtenKey h attr \<notin> set maintained"
    and "movieLoop h obj this ks = Inl e"
  shows "e = TypeError ''invalid year''"
  using assms(2-)
proof (induction ks arbitrary: this)
  case Nil
  then show ?case by simp
next
  case (Cons k ks)
  from Cons.prems(2) have plk: "k \<in> set specialNames \<or> writtenKey h k \<notin> set maintained"
    and plks: "\<forall>attr \<in> set ks. attr \<in> set specialNames \<or> writtenKey h attr \<notin> set maintained"
    by simp_all
  show ?case
  proof (cases "movieAttr h obj this k")
    case (Inl e')
    have "k = ''Year''"
    proof (rule ccontr)
      assume "k \<noteq> ''Year''"
      with movieAttr_ok [OF Cons.prems(1) plk, of obj] Inl show False by simp
    qed
    with Inl Cons.prems(3) assms(1) show ?thesis
      by (simp add: movieAttr_Year split: if_splits option.splits)
  next
    case (Inr t)
    have "hasRatings t"
    proof (cases "k = ''Year''")
      case True
      then have "''ratings'' \<notin> set (writes h k)" by (simp add: writes_def)
      with Inr have "getp t ''ratings'' = getp this ''ratings''" by (rule movieAttr_frame)
      with Cons.prems(1) show ?thesis by (simp add: hasRatings_def)
    next
      case False
      with movieAttr_ok [OF Cons.prems(1) plk, of obj] Inr show ?thesis by simp
    qed
    moreover from Inr Cons.prems(3) have "movieLoop h obj t ks = Inl e" by simp
    ultimately show ?thesis using plks by (intro Cons.IH [of t])
  qed
qed

lemma Movie_error_year:
  assumes "plainPayload h obj" "field obj ''Year'' = Some (OStr y)" "Movie h obj = Inl e"
  shows "e = TypeError ''invalid year''"
proof -
  let ?init = "setp Map.empty ''ratings'' (Arr [])"
  from assms(3) have "movieLoop h obj ?init (map fst obj) = Inl e"
    by (cases "movieLoop h obj ?init (map fst obj)") (simp_all add: Movie_def)
  moreover have "\<forall>attr\<in>set (map fst obj). attr \<in> set specialNames \<or> writtenKey h attr \<notin> set maintained"
    using assms(1) unfolding plainPayload_def list_all_iff by blast
  ultimately show ?thesis
    using assms(2) hasRatings_init by (intro movieLoop_error_year [of obj y ?init "map fst obj" h])
qed

lemma field_in_keys: "field obj k = Some v \<Longrightarrow> k \<in> set (map fst obj)"
proof -
  assume "field obj k = Some v"
  then have "(k, v) \<in> set obj" unfolding field_def by (rule map_of_SomeD)
  then show ?thesis by force
qed

lemma getp_init_other: "p \<noteq> ''ratings'' \<Longrightarrow> getp (setp Map.empty ''ratings'' (Arr [])) p = Undefined"
  by (simp add: getp_def setp_def)

subsection \<open>The Year field\<close>

lemma getp_empty: "getp (\<lambda>x. None) k = Undefined"
  by (simp add: getp_def)

text \<open>
  C5. For a payload whose \<open>Year\<close> is the string \<open>y\<close>: the \<open>Year\<close> branch keeps
  \<open>y\<close> verbatim in \<open>_yearData\<close>; when \<open>y\<close> matches the range pattern it writes no
  \<open>year\<close>, otherwise it writes the parsed integer or throws
  \<open>TypeError("invalid year")\<close> when the parse gives \<open>NaN\<close>. For a payload of the
  declared shape the whole constructor throws exactly when \<open>y\<close> is no range and does
  not parse, the error is that \<open>TypeError\<close>, and a constructed movie has
  \<open>_yearData = y\<close> and \<open>year\<close> as the branch left it.
\<close>

theorem year_field:
  assumes y: "field obj ''Year'' = Some (OStr y)"
  shows "movieAttr h obj this ''Year'' =
           (if matchYearRange y then Inr (setp this ''_yearData'' (Str y))
            else (case parseIntStr y of
                    None \<Rightarrow> Inl (TypeError ''invalid year'')
                  | Some val \<Rightarrow> Inr (setp (setp this ''_yearData'' (Str y)) ''year'' (Num val)))) \<and>
         (plainPayload h obj \<longrightarrow>
            isl (Movie h obj) = (\<not> matchYearRange y \<and> parseIntStr y = None) \<and>
            (\<forall>e. Movie h obj = Inl e \<longrightarrow> e = TypeError ''invalid year'') \<and>
            (\<forall>m. Movie h obj = Inr m \<longrightarrow>
                 getp m ''_yearData'' = Str y \<and>
                 getp m ''year'' = (if matchYearRange y then Undefined
                                    else numOf (parseIntStr y))))"
proof (intro conjI impI allI)
  show "movieAttr h obj this ''Year'' =
           (if matchYearRange y then Inr (setp this ''_yearData'' (Str y))
            else (case parseIntStr y of
                    None \<Rightarrow> Inl (TypeError ''invalid year'')
                  | Some val \<Rightarrow> Inr (setp (setp this ''_yearData'' (Str y)) ''year'' (Num val))))"
    using y by (rule movieAttr_Year)
next
  assume "plainPayload h obj"
  then have "isl (Movie h obj) = yearFails obj" by (rule Movie_fails_iff)
  with y show "isl (Movie h obj) = (\<not> matchYearRange y \<and> parseIntStr y = None)"
    by (simp add: yearFails_def)
next
  fix e assume "plainPayload h obj" "Movie h obj = Inl e"
  with y show "e = TypeError ''invalid year''" by (intro Movie_error_year [of h obj y e])
next
  fix m assume pl: "plainPayload h obj" and m: "Movie h obj = Inr m"
  have K: "''Year'' \<in> set specialNames" by (simp add: specialNames_def)
  have k: "''Year'' \<in> set (map fst obj)" using y by (rule field_in_keys)
  have "\<not> isl (Movie h obj)" using m by simp
  with pl y have ok: "matchYearRange y \<or> parseIntStr y \<noteq> None"
    by (simp add: Movie_fails_iff yearFails_def)
  have "''_yearData'' \<in> set (writes h ''Year'')" by (simp add: writes_def)
  from Movie_special [OF pl K k m this]
  obtain t0 t where "movieAttr h obj t0 ''Year'' = Inr t" "getp m ''_yearData'' = getp t ''_yearData''"
    by blast
  with y show "getp m ''_yearData'' = Str y"
    by (auto simp: movieAttr_Year getp_setp_same getp_setp_other split: if_splits option.splits)
  have "''year'' \<in> set (writes h ''Year'')" by (simp add: writes_def)
  from Movie_special [OF pl K k m this]
  obtain t0 t where "movieAttr h obj t0 ''Year'' = Inr t" "getp m ''year'' = getp t ''year''"
    "getp t0 ''year'' = getp (setp Map.empty ''ratings'' (Arr [])) ''year''"
    by blast
  with y show "getp m ''year'' = (if matchYearRange y then Undefined else numOf (parseIntStr y))"
    by (auto simp: movieAttr_Year getp_setp_same getp_setp_other getp_init_other numOf_def getp_empty
             split: if_splits option.splits)
qed

theorem year_field_witness:
  "Movie testHost yearBad = Inl (TypeError ''invalid year'') \<and>
   (\<exists>m. Movie testHost sampleShow = Inr m \<and> getp m ''_yearData'' = Str ''2015-2019'' \<and>
        getp m ''year'' = Undefined) \<and>
   (\<exists>m. Movie testHost yearPlain = Inr m \<and> getp m ''_yearData'' = Str ''2015'' \<and>
        getp m ''year'' = Num 2015)"
proof (intro conjI)
  have f: "field yearBad ''Year'' = Some (OStr ''N/A'')" by (simp add: field_def yearBad_def)
  have pl: "plainPayload testHost yearBad" by code_simp
  have a: "\<not> matchYearRange ''N/A''" by code_simp
  have b: "parseIntStr ''N/A'' = None" by code_simp
  from year_field [OF f, of testHost Map.empty] pl a b
  have "isl (Movie testHost yearBad)" and "\<forall>e. Movie testHost yearBad = Inl e \<longrightarrow> e = TypeError ''invalid year''"
    by (simp_all del: matchYearRange.simps)
  then show "Movie testHost yearBad = Inl (TypeError ''invalid year'')"
    by (cases "Movie testHost yearBad") simp_all
next
  have f: "field sampleShow ''Year'' = Some (OStr ''2015-2019'')" by (simp add: field_def sampleShow_def)
  have pl: "plainPayload testHost sampleShow" by code_simp
  have a: "matchYearRange ''2015-2019''" by code_simp
  from year_field [OF f, of testHost Map.empty] pl a
  have "\<not> isl (Movie testHost sampleShow)" and
    "\<forall>m. Movie testHost sampleShow = Inr m \<longrightarrow> getp m ''_yearData'' = Str ''2015-2019'' \<and> getp m ''year'' = Undefined"
    by (simp_all del: matchYearRange.simps)
  then show "\<exists>m. Movie testHost sampleShow = Inr m \<and> getp m ''_yearData'' = Str ''2015-2019'' \<and>
        getp m ''year'' = Undefined"
    by (cases "Movie testHost sampleShow") simp_all
next
  have f: "field yearPlain ''Year'' = Some (OStr ''2015'')" by (simp add: field_def yearPlain_def)
  have pl: "plainPayload testHost yearPlain" by code_simp
  have a: "\<not> matchYearRange ''2015''" by code_simp
  have b: "parseIntStr ''2015'' = Some 2015" by code_simp
  from year_field [OF f, of testHost Map.empty] pl a b
  have "\<not> isl (Movie testHost yearPlain)" and
    "\<forall>m. Movie testHost yearPlain = Inr m \<longrightarrow> getp m ''_yearData'' = Str ''2015'' \<and> getp m ''year'' = Num 2015"
    by (simp_all add: numOf_def del: matchYearRange.simps)
  then show "\<exists>m. Movie testHost yearPlain = Inr m \<and> getp m ''_yearData'' = Str ''2015'' \<and>
        getp m ''year'' = Num 2015"
    by (cases "Movie testHost yearPlain") simp_all
qed

subsection \<open>The Released and DVD fields\<close>

text \<open>
  C9. For a payload whose \<open>Released\<close> (or \<open>DVD\<close>) property is \<open>v\<close>: the branch
  never throws and assigns \<open>released\<close> (\<open>dvd\<close>) the parsed date, or \<open>undefined\<close>
  when the date does not parse. For a payload of the declared shape, whether the whole
  constructor throws is decided by the \<open>Year\<close> property alone, and a constructed
  movie has \<open>released\<close> (\<open>dvd\<close>) equal to the parsed date when \<open>v\<close> parses and
  \<open>undefined\<close> when it does not.
\<close>

theorem date_fields:
  assumes K: "(K, p) \<in> {(''Released'', ''released''), (''DVD'', ''dvd'')}"
    and v: "field obj K = Some v"
  shows "movieAttr h obj this K =
           Inr (setp this p (case dateParse h (toString h (ofRaw v)) of
                               None \<Rightarrow> Undefined | Some t \<Rightarrow> DateV t)) \<and>
         (plainPayload h obj \<longrightarrow>
            isl (Movie h obj) = yearFails obj \<and>
            (\<forall>m. Movie h obj = Inr m \<longrightarrow>
                 (dateParse h (toString h (ofRaw v)) = None \<longrightarrow> getp m p = Undefined) \<and>
                 (\<forall>t. dateParse h (toString h (ofRaw v)) = Some t \<longrightarrow> getp m p = DateV t)))"
proof (intro conjI impI allI)
  from K v show "movieAttr h obj this K =
           Inr (setp this p (case dateParse h (toString h (ofRaw v)) of
                               None \<Rightarrow> Undefined | Some t \<Rightarrow> DateV t))"
    by (auto simp: movieAttr_Released movieAttr_DVD newDate_def)
next
  assume "plainPayload h obj"
  then show "isl (Movie h obj) = yearFails obj" by (rule Movie_fails_iff)
next
  fix m assume pl: "plainPayload h obj" and m: "Movie h obj = Inr m"
  have sp: "K \<in> set specialNames" using K by (auto simp: specialNames_def)
  have k: "K \<in> set (map fst obj)" using v by (rule field_in_keys)
  have w: "p \<in> set (writes h K)" using K by (auto simp: writes_def)
  have pk: "p \<noteq> ''__proto__''" using K by auto
  from Movie_special [OF pl sp k m w]
  obtain t0 t where "movieAttr h obj t0 K = Inr t" "getp m p = getp t p" by blast
  with K v pk have r: "getp m p = newDate h v"
    by (auto simp: movieAttr_Released movieAttr_DVD getp_setp_same)
  { assume "dateParse h (toString h (ofRaw v)) = None"
    with r show "getp m p = Undefined" by (simp add: newDate_def) }
  { fix t assume "dateParse h (toString h (ofRaw v)) = Some t"
    with r show "getp m p = DateV t" by (simp add: newDate_def) }
qed

theorem date_fields_witness:
  "\<exists>m. Movie testHost yearPlain = Inr m \<and> getp m ''released'' = DateV 1420070400000 \<and>
       getp m ''dvd'' = Undefined"
proof -
  have pl: "plainPayload testHost yearPlain" by code_simp
  have r: "field yearPlain ''Released'' = Some (OStr ''2015-01-01'')"
    by (simp add: field_def yearPlain_def)
  have d: "field yearPlain ''DVD'' = Some (OStr ''N/A'')"
    by (simp add: field_def yearPlain_def)
  have pr: "dateParse testHost (toString testHost (ofRaw (OStr ''2015-01-01''))) = Some 1420070400000"
    by (simp add: testHost_def toString_def)
  have pd: "dateParse testHost (toString testHost (ofRaw (OStr ''N/A''))) = None"
    by (simp add: testHost_def toString_def)
  have nf: "\<not> yearFails yearPlain" by code_simp
  have R: "(''Released'', ''released'') \<in> {(''Released'', ''released''), (''DVD'', ''dvd'')}" by simp
  have D: "(''DVD'', ''dvd'') \<in> {(''Released'', ''released''), (''DVD'', ''dvd'')}" by simp
  from date_fields [OF R r, of testHost Map.empty] pl nf pr
  have 1: "\<not> isl (Movie testHost yearPlain)"
    and 2: "\<forall>m. Movie testHost yearPlain = Inr m \<longrightarrow> getp m ''released'' = DateV 1420070400000"
    by simp_all
  from date_fields [OF D d, of testHost Map.empty] pl pd
  have 3: "\<forall>m. Movie testHost yearPlain = Inr m \<longrightarrow> getp m ''dvd'' = Undefined"
    by simp
  from 1 2 3 show ?thesis by (cases "Movie testHost yearPlain") simp_all
qed

subsection \<open>Start and end year of a show\<close>

text \<open>
  C6. A show whose year is the range \<open>2015\<dots>2019\<close> written with an en-dash, which the
  \<open>Movie\<close> constructor accepts as a range, gets \<open>start_year = 2015\<close> but
  \<open>end_year = undefined\<close>: the \<open>TVShow\<close> constructor splits at the hyphen only.
  With a hyphen, \<open>2015-2019\<close> gives 2015 and 2019, and \<open>2015-\<close> gives 2015 and
  \<open>undefined\<close>.
\<close>

theorem tvshow_endash_range:
  "matchYearRange (''2015'' @ enDash @ ''2019'') \<and>
   yearsOf (TVShow testHost (showWithYear (''2015'' @ enDash @ ''2019'')) sampleOpts)
     = Some (Some 2015, None) \<and>
   yearsOf (TVShow testHost (showWithYear ''2015-2019'') sampleOpts) = Some (Some 2015, Some 2019) \<and>
   yearsOf (TVShow testHost (showWithYear ''2015-'') sampleOpts) = Some (Some 2015, None)"
  by code_simp

subsection \<open>Aggregating the episodes of a show\<close>

lemma promiseAll_Inr: "promiseAll rs = Inr xs \<Longrightarrow> rs = map Inr xs"
proof (induction rs arbitrary: xs)
  case Nil
  then show ?case by simp
next
  case (Cons r rs)
  show ?case
  proof (cases r)
    case (Inl e)
    with Cons.prems show ?thesis by simp
  next
    case (Inr x)
    with Cons.prems obtain ys where ys: "promiseAll rs = Inr ys" "xs = x # ys"
      by (cases "promiseAll rs") simp_all
    with Cons.IH [of ys] Inr show ?thesis by simp
  qed
qed

lemma Episode_season:
  assumes "Episode h obj season = Inr x" and "season \<noteq> Undefined"
  shows "getp x ''season'' = season"
proof -
  from assms obtain this where "Movie h obj = Inr this"
    by (cases "Movie h obj") (simp_all add: Episode_def)
  with assms show ?thesis
    by (auto simp: Episode_def getp_setp_same getp_setp_other split: if_splits option.splits)
qed

lemma pushEpisodes_seasons:
  "pushEpisodes h season acc ps = Inr eps \<Longrightarrow> season \<noteq> Undefined \<Longrightarrow>
   map (\<lambda>e. getp e ''season'') eps =
     map (\<lambda>e. getp e ''season'') acc @ replicate (length ps) season"
proof (induction ps arbitrary: acc)
  case Nil
  then show ?case by simp
next
  case (Cons p ps)
  from Cons.prems(1) obtain x where x: "Episode h p season = Inr x"
    and r: "pushEpisodes h season (acc @ [x]) ps = Inr eps"
    by (cases "Episode h p season") simp_all
  from x Cons.prems(2) have "getp x ''season'' = season" by (rule Episode_season)
  with Cons.IH [OF r Cons.prems(2)] show ?case by (simp add: replicate_app_Cons_same)
qed

lemma numOf_defined: "numOf r \<noteq> Undefined"
  by (cases r) (simp_all add: numOf_def)

lemma length_ownValues: "length (ownValues m) = length m"
  by (simp add: ownValues_def)

lemma collect_seasons:
  "collect h acc epData = Inr eps \<Longrightarrow>
   map (\<lambda>e. getp e ''season'') eps = map (\<lambda>e. getp e ''season'') acc @ payloadSeasons h epData"
proof (induction epData arbitrary: acc)
  case Nil
  then show ?case by (simp add: payloadSeasons_def)
next
  case (Cons datum rest)
  from Cons.prems have ne: "\<not> isError (top datum)" by (auto split: if_splits)
  with Cons.prems obtain m where m: "Episodes datum = Some m"
    by (cases "Episodes datum") (simp_all add: Let_def)
  let ?s = "numOf (parseInt h (field (top datum) ''Season''))"
  from Cons.prems ne m obtain eps1 where p: "pushEpisodes h ?s acc (ownValues m) = Inr eps1"
    and r: "collect h eps1 rest = Inr eps"
    by (cases "pushEpisodes h ?s acc (ownValues m)") (simp_all add: Let_def)
  from pushEpisodes_seasons [OF p numOf_defined]
  have "map (\<lambda>e. getp e ''season'') eps1 = map (\<lambda>e. getp e ''season'') acc @ replicate (length m) ?s"
    by (simp add: length_ownValues)
  with Cons.IH [OF r] m show ?case by (simp add: payloadSeasons_def episodeCount_def)
qed

lemma collect_append:
  "collect h acc (xs @ ys) =
     (case collect h acc xs of Inl e \<Rightarrow> Inl e | Inr eps \<Rightarrow> collect h eps ys)"
proof (induction xs arbitrary: acc)
  case Nil
  then show ?case by simp
next
  case (Cons x xs)
  show ?case
  proof (cases "isError (top x)")
    case True
    then show ?thesis by simp
  next
    case False
    show ?thesis
    proof (cases "Episodes x")
      case None
      with False show ?thesis by (simp add: Let_def)
    next
      case (Some m)
      with False Cons.IH show ?thesis
        by (cases "pushEpisodes h (numOf (parseInt h (field (top x) ''Season''))) acc (ownValues m)")
           (simp_all add: Let_def)
    qed
  qed
qed

lemma episodes_resolved:
  assumes "episodesCache tv = []" and "episodes h ky tv = (Resolved eps, tv', reqs)"
  shows "reqs = map (seasonRequest tv) (seasonNumbers tv) \<and>
         tv' = tv\<lparr>episodesCache := eps\<rparr> \<and>
         (\<exists>epData. promiseAll (map ky reqs) = Inr epData \<and> collect h [] epData = Inr eps)"
proof -
  let ?reqs = "map (seasonRequest tv) (seasonNumbers tv)"
  from assms obtain epData where d: "promiseAll (map ky ?reqs) = Inr epData"
    by (cases "promiseAll (map ky ?reqs)") (simp_all add: episodes_def Let_def)
  with assms obtain eps0 where c: "collect h [] epData = Inr eps0"
    by (cases "collect h [] epData") (simp_all add: episodes_def Let_def)
  with assms d show ?thesis by (auto simp: episodes_def Let_def)
qed


lemma episodes_rejected_unchanged:
  "episodes h ky tv = (Rejected e, tv', reqs) \<Longrightarrow> tv' = tv"
  by (auto simp: episodes_def Let_def split: if_splits sum.splits)

lemma length_seasonNumbers:
  "length (seasonNumbers tv) = (case totalseasons tv of None \<Rightarrow> 0 | Some n \<Rightarrow> nat n)"
  by (cases "totalseasons tv") (simp_all add: seasonNumbers_def)

text \<open>
  C1 (as amended). When \<open>episodes()\<close> aggregates a show, the responses are taken in
  the order of the requests for seasons 1..N, and every \<open>Episode\<close> built from a
  response has its \<open>season\<close> equal to \<open>parseInt\<close> of the \<open>Season\<close> field of
  that response (\<open>NaN\<close> when it does not parse): neither the season number of the
  request nor the \<open>Season\<close> field of the episode entry is used.
\<close>

theorem episodes_season_of_response:
  assumes "episodesCache tv = []" and "episodes h ky tv = (Resolved eps, tv', reqs)"
  shows "reqs = map (seasonRequest tv) (seasonNumbers tv) \<and>
         (\<exists>epData. map ky reqs = map Inr epData \<and>
            map (\<lambda>e. getp e ''season'') eps = payloadSeasons h epData)"
proof -
  from episodes_resolved [OF assms] obtain epData where
    r1: "reqs = map (seasonRequest tv) (seasonNumbers tv)" and
    r2: "promiseAll (map ky reqs) = Inr epData" and r3: "collect h [] epData = Inr eps"
    by blast
  from r2 have "map ky reqs = map Inr epData" by (rule promiseAll_Inr)
  moreover from collect_seasons [OF r3]
  have "map (\<lambda>e. getp e ''season'') eps = payloadSeasons h epData" by simp
  ultimately show ?thesis using r1 by blast
qed

theorem episodes_season_of_response_witness:
  "\<exists>eps tv' reqs epData.
     episodes testHost conflictingKy sampleTV = (Resolved eps, tv', reqs) \<and>
     map conflictingKy reqs = map Inr epData \<and>
     map (\<lambda>e. getp e ''season'') eps = payloadSeasons testHost epData \<and>
     payloadSeasons testHost epData = [Num 5, Num 2, Num 2]"
proof -
  obtain r tv' reqs where e: "episodes testHost conflictingKy sampleTV = (r, tv', reqs)"
    by (cases "episodes testHost conflictingKy sampleTV") auto
  have "seasonsOf (fst (episodes testHost conflictingKy sampleTV)) = Some [Num 5, Num 2, Num 2]"
    by code_simp
  with e obtain eps where r: "r = Resolved eps" and s: "map (\<lambda>e. getp e ''season'') eps = [Num 5, Num 2, Num 2]"
    by (cases r) (simp_all add: seasonsOf_def)
  have c: "episodesCache sampleTV = []" by (simp add: sampleTV_def)
  from episodes_season_of_response [OF c e [unfolded r]] s e r show ?thesis by auto
qed

text \<open>
  C1 (as stated) fails: the upstream answers the request for season 1 with a response
  whose \<open>Season\<close> is 5, and the episode built from it has season 5, not 1.
\<close>

theorem episodes_season_counterexample:
  "requestedSeasons (snd (snd (episodes testHost conflictingKy sampleTV)))
     = [Some (Num 1), Some (Num 2)] \<and>
   seasonsOf (fst (episodes testHost conflictingKy sampleTV)) = Some [Num 5, Num 2, Num 2] \<and>
   seasonsOf (fst (episodes testHost conflictingKy sampleTV)) \<noteq> Some [Num 1, Num 2, Num 2]"
  by code_simp

subsection \<open>An error-classified season\<close>

lemma collect_error_first:
  assumes "isError (top datum)"
  shows "collect h acc (pre @ datum # post) =
           (case collect h acc pre of
              Inl e \<Rightarrow> Inl e
            | Inr eps \<Rightarrow> Inl (ImdbError (rawString h (field (top datum) ''Error''))))"
  using assms by (cases "collect h acc pre") (simp_all add: collect_append)

lemma collect_has_error:
  "\<exists>d \<in> set epData. isError (top d) \<Longrightarrow> isl (collect h acc epData)"
proof (induction epData arbitrary: acc)
  case Nil
  then show ?case by simp
next
  case (Cons x xs)
  show ?case
  proof (cases "isError (top x)")
    case True
    then show ?thesis by simp
  next
    case False
    with Cons.prems have ex: "\<exists>d \<in> set xs. isError (top d)" by simp
    show ?thesis
    proof (cases "Episodes x")
      case None
      with False show ?thesis by (simp add: Let_def)
    next
      case (Some m)
      show ?thesis
      proof (cases "pushEpisodes h (numOf (parseInt h (field (top x) ''Season''))) acc (ownValues m)")
        case (Inl e)
        with False Some show ?thesis by (simp add: Let_def)
      next
        case (Inr eps1)
        with False Some Cons.IH [OF ex, of eps1] show ?thesis by (simp add: Let_def)
      qed
    qed
  qed
qed

text \<open>
  C7 (as amended). When all season requests are answered and one of the responses is
  error-classified, \<open>episodes()\<close> rejects, returns no list and leaves the show, its
  episode cache included, unchanged. The error is the \<open>ImdbError\<close> carrying the message
  of an error-classified response when the episodes of the responses before it were
  built without a throw (so it is the first such response); when building them throws,
  the rejection is the error of that throw instead.
\<close>

theorem episodes_error_season:
  assumes cache: "episodesCache tv = []"
    and all: "promiseAll (map ky (map (seasonRequest tv) (seasonNumbers tv))) = Inr epData"
    and err: "\<exists>d \<in> set epData. isError (top d)"
  shows "(\<exists>e. episodes h ky tv = (Rejected e, tv, map (seasonRequest tv) (seasonNumbers tv))) \<and>
         (\<forall>pre datum post eps. epData = pre @ datum # post \<and> isError (top datum) \<and>
              collect h [] pre = Inr eps \<longrightarrow>
            (\<forall>d \<in> set pre. \<not> isError (top d)) \<and>
            episodes h ky tv =
              (Rejected (ImdbError (rawString h (field (top datum) ''Error''))), tv,
               map (seasonRequest tv) (seasonNumbers tv))) \<and>
         (\<forall>pre datum post e'. epData = pre @ datum # post \<and> isError (top datum) \<and>
              collect h [] pre = Inl e' \<longrightarrow>
            episodes h ky tv = (Rejected e', tv, map (seasonRequest tv) (seasonNumbers tv)))"
proof (intro conjI allI impI)
  from collect_has_error [OF err, of h "[]"] obtain e where "collect h [] epData = Inl e"
    by (cases "collect h [] epData") simp_all
  with cache all
  show "\<exists>e. episodes h ky tv = (Rejected e, tv, map (seasonRequest tv) (seasonNumbers tv))"
    by (simp add: episodes_def Let_def)
next
  fix pre datum post eps
  assume a: "epData = pre @ datum # post \<and> isError (top datum) \<and> collect h [] pre = Inr eps"
  show "\<forall>d \<in> set pre. \<not> isError (top d)"
  proof (rule ccontr)
    assume "\<not> (\<forall>d \<in> set pre. \<not> isError (top d))"
    then have "\<exists>d \<in> set pre. isError (top d)" by simp
    then have "isl (collect h [] pre)" by (rule collect_has_error)
    with a show False by simp
  qed
  from a have "collect h [] epData = Inl (ImdbError (rawString h (field (top datum) ''Error'')))"
    by (simp add: collect_error_first)
  with cache all
  show "episodes h ky tv =
          (Rejected (ImdbError (rawString h (field (top datum) ''Error''))), tv,
           map (seasonRequest tv) (seasonNumbers tv))"
    by (simp add: episodes_def Let_def)
next
  fix pre datum post e'
  assume a: "epData = pre @ datum # post \<and> isError (top datum) \<and> collect h [] pre = Inl e'"
  then have "collect h [] epData = Inl e'"
    by (simp add: collect_error_first)
  with cache all
  show "episodes h ky tv = (Rejected e', tv, map (seasonRequest tv) (seasonNumbers tv))"
    by (simp add: episodes_def Let_def)
qed

theorem episodes_error_season_witness:
  "episodes testHost failingKy sampleTV =
     (Rejected (ImdbError ''Series or season not found!''), sampleTV,
      map (seasonRequest sampleTV) (seasonNumbers sampleTV)) \<and>
   episodes testHost brokenKy sampleTV =
     (Rejected (TypeError ''invalid year''), sampleTV,
      map (seasonRequest sampleTV) (seasonNumbers sampleTV))"
proof
  let ?s1 = "seasonPayload ''1'' [episodePayload ''2015'' ''1'']"
  let ?s2 = "errorPayload ''Series or season not found!''"
  have c: "episodesCache sampleTV = []" by (simp add: sampleTV_def)
  have all: "promiseAll (map failingKy (map (seasonRequest sampleTV) (seasonNumbers sampleTV)))
               = Inr [?s1, ?s2]"
    by code_simp
  have e: "isError (top ?s2)" by code_simp
  then have ex: "\<exists>d \<in> set [?s1, ?s2]. isError (top d)" by simp
  have "\<not> isl (collect testHost [] [?s1])" by code_simp
  then obtain eps where p: "collect testHost [] [?s1] = Inr eps"
    by (cases "collect testHost [] [?s1]") simp_all
  have m: "rawString testHost (field (top ?s2) ''Error'') = ''Series or season not found!''"
    by code_simp
  have sp: "[?s1, ?s2] = [?s1] @ ?s2 # []" by simp
  from episodes_error_season [OF c all ex, of testHost] sp e p
  have "episodes testHost failingKy sampleTV =
          (Rejected (ImdbError (rawString testHost (field (top ?s2) ''Error''))), sampleTV,
           map (seasonRequest sampleTV) (seasonNumbers sampleTV))"
    by blast
  with m show "episodes testHost failingKy sampleTV =
     (Rejected (ImdbError ''Series or season not found!''), sampleTV,
      map (seasonRequest sampleTV) (seasonNumbers sampleTV))"
    by simp
next
  let ?b1 = "seasonPayload ''1'' [episodePayload ''N/A'' ''1'']"
  let ?s2 = "errorPayload ''Series or season not found!''"
  have c: "episodesCache sampleTV = []" by (simp add: sampleTV_def)
  have all: "promiseAll (map brokenKy (map (seasonRequest sampleTV) (seasonNumbers sampleTV)))
               = Inr [?b1, ?s2]"
    by code_simp
  have e: "isError (top ?s2)" by code_simp
  then have ex: "\<exists>d \<in> set [?b1, ?s2]. isError (top d)" by simp
  have "isl (collect testHost [] [?b1])" by code_simp
  then obtain e' where p: "collect testHost [] [?b1] = Inl e'"
    by (cases "collect testHost [] [?b1]") simp_all
  have sp: "[?b1, ?s2] = [?b1] @ ?s2 # []" by simp
  from episodes_error_season [OF c all ex, of testHost] sp e p
  have r: "episodes testHost brokenKy sampleTV =
          (Rejected e', sampleTV, map (seasonRequest sampleTV) (seasonNumbers sampleTV))"
    by blast
  have "rejectionOf (fst (episodes testHost brokenKy sampleTV)) = Some (TypeError ''invalid year'')"
    by code_simp
  with r have "e' = TypeError ''invalid year''" by (simp add: rejectionOf_def)
  with r show "episodes testHost brokenKy sampleTV =
     (Rejected (TypeError ''invalid year''), sampleTV,
      map (seasonRequest sampleTV) (seasonNumbers sampleTV))"
    by simp
qed

text \<open>
  C7 (as stated) fails: season 1 holds an episode whose year does not parse and season 2
  is error-classified; the aggregation rejects with \<open>TypeError("invalid year")\<close>, not
  with an \<open>ImdbError\<close> carrying the message of season 2.
\<close>

theorem episodes_error_season_counterexample:
  "isError (top (errorPayload ''Series or season not found!'')) \<and>
   map brokenKy (map (seasonRequest sampleTV) (seasonNumbers sampleTV))
     = [Inr (seasonPayload ''1'' [episodePayload ''N/A'' ''1'']),
        Inr (errorPayload ''Series or season not found!'')] \<and>
   rejectionOf (fst (episodes testHost brokenKy sampleTV)) = Some (TypeError ''invalid year'')"
  by code_simp

subsection \<open>The episode cache\<close>

lemma episodes_requests:
  assumes "episodesCache tv = []"
  shows "snd (snd (episodes h ky tv)) = map (seasonRequest tv) (seasonNumbers tv)"
proof (cases "promiseAll (map ky (map (seasonRequest tv) (seasonNumbers tv)))")
  case (Inl e)
  with assms show ?thesis by (simp add: episodes_def Let_def)
next
  case (Inr epData)
  with assms show ?thesis
    by (cases "collect h [] epData") (simp_all add: episodes_def Let_def)
qed

lemma seasonRequest_cache: "seasonRequest (tv\<lparr>episodesCache := eps\<rparr>) = seasonRequest tv"
  by (rule ext) (simp add: seasonRequest_def)

lemma seasonNumbers_cache: "seasonNumbers (tv\<lparr>episodesCache := eps\<rparr>) = seasonNumbers tv"
  by (simp add: seasonNumbers_def)

text \<open>
  C10. With an empty cache \<open>episodes()\<close> always hands the transport the N season
  requests. An aggregation that resolves stores its list in the cache. A stored list
  that is not empty is what every later call resolves with, whatever the transport, and
  no request is made; a stored empty list leaves the cache empty, so every later call
  hands the transport the same N requests again. In general a call answers from the
  cache, with no request, when the cached list is not empty.
\<close>

theorem episodes_cache_guard:
  "(episodesCache tv = [] \<longrightarrow>
      snd (snd (episodes h ky tv)) = map (seasonRequest tv) (seasonNumbers tv) \<and>
      length (snd (snd (episodes h ky tv)))
        = (case totalseasons tv of None \<Rightarrow> 0 | Some n \<Rightarrow> nat n)) \<and>
   (episodesCache tv = [] \<and> episodes h ky tv = (Resolved eps, tv', reqs) \<longrightarrow>
      tv' = tv\<lparr>episodesCache := eps\<rparr> \<and> episodesCache tv' = eps \<and>
      (eps \<noteq> [] \<longrightarrow> (\<forall>ky2. episodes h ky2 tv' = (Resolved eps, tv', []))) \<and>
      (eps = [] \<longrightarrow> tv' = tv \<and> (\<forall>ky2. snd (snd (episodes h ky2 tv')) = reqs))) \<and>
   (episodesCache tv \<noteq> [] \<longrightarrow> episodes h ky tv = (Resolved (episodesCache tv), tv, []))"
proof (intro conjI impI allI)
  assume c: "episodesCache tv = []"
  then show q: "snd (snd (episodes h ky tv)) = map (seasonRequest tv) (seasonNumbers tv)"
    by (rule episodes_requests)
  show "length (snd (snd (episodes h ky tv)))
          = (case totalseasons tv of None \<Rightarrow> 0 | Some n \<Rightarrow> nat n)"
    unfolding q by (simp add: length_seasonNumbers)
next
  assume a: "episodesCache tv = [] \<and> episodes h ky tv = (Resolved eps, tv', reqs)"
  then have c: "episodesCache tv = []" and r: "episodes h ky tv = (Resolved eps, tv', reqs)"
    by simp_all
  from episodes_resolved [OF c r]
  have q: "reqs = map (seasonRequest tv) (seasonNumbers tv)"
    and t: "tv' = tv\<lparr>episodesCache := eps\<rparr>"
    by simp_all
  from t show "tv' = tv\<lparr>episodesCache := eps\<rparr>" .
  from t show s: "episodesCache tv' = eps" by simp
  { fix ky2 assume "eps \<noteq> []"
    with s show "episodes h ky2 tv' = (Resolved eps, tv', [])" by (simp add: episodes_def) }
  { assume e: "eps = []"
    with t c show "tv' = tv" by simp }
  { fix ky2 assume e: "eps = []"
    with s have "snd (snd (episodes h ky2 tv')) = map (seasonRequest tv') (seasonNumbers tv')"
      by (intro episodes_requests) simp
    with q t show "snd (snd (episodes h ky2 tv')) = reqs"
      by (simp add: seasonRequest_cache seasonNumbers_cache) }
next
  assume "episodesCache tv \<noteq> []"
  then show "episodes h ky tv = (Resolved (episodesCache tv), tv, [])"
    by (simp add: episodes_def)
qed

theorem episodes_cache_guard_witness:
  "(\<exists>eps tv' reqs.
      episodes testHost conflictingKy sampleTV = (Resolved eps, tv', reqs) \<and>
      length reqs = 2 \<and> length eps = 3 \<and> episodesCache tv' = eps \<and>
      episodes testHost downKy tv' = (Resolved eps, tv', [])) \<and>
   (\<exists>reqs.
      episodes testHost emptyKy sampleTV = (Resolved [], sampleTV, reqs) \<and>
      length reqs = 2 \<and> snd (snd (episodes testHost downKy sampleTV)) = reqs) \<and>
   (\<exists>eps tv' reqs.
      episodes testHost arrayKy sampleTV = (Resolved eps, tv', reqs) \<and>
      length eps = 2 \<and> episodes testHost downKy tv' = (Resolved eps, tv', [])) \<and>
   (\<exists>eps tv' reqs.
      episodes testHost conflictingKy sampleTV = (Resolved eps, tv', reqs) \<and>
      episodesCache tv' \<noteq> [] \<and>
      episodes testHost conflictingKy tv' = (Resolved (episodesCache tv'), tv', []))"
proof (intro conjI)
  have c: "episodesCache sampleTV = []" by (simp add: sampleTV_def)
  have n: "totalseasons sampleTV = Some 2" by (simp add: sampleTV_def)
  obtain r tv' reqs where e: "episodes testHost conflictingKy sampleTV = (r, tv', reqs)"
    by (cases "episodes testHost conflictingKy sampleTV") auto
  have "seasonsOf (fst (episodes testHost conflictingKy sampleTV)) = Some [Num 5, Num 2, Num 2]"
    by code_simp
  with e obtain eps where r: "r = Resolved eps"
    and s: "map (\<lambda>e. getp e ''season'') eps = [Num 5, Num 2, Num 2]"
    by (cases r) (simp_all add: seasonsOf_def)
  from s have l: "length eps = 3" by (metis length_map length_Cons list.size(3) numeral_3_eq_3)
  then have ne: "eps \<noteq> []" by auto
  from episodes_cache_guard [of sampleTV testHost conflictingKy eps tv' reqs] c e r n ne l
  show "\<exists>eps tv' reqs.
      episodes testHost conflictingKy sampleTV = (Resolved eps, tv', reqs) \<and>
      length reqs = 2 \<and> length eps = 3 \<and> episodesCache tv' = eps \<and>
      episodes testHost downKy tv' = (Resolved eps, tv', [])"
    by auto
next
  have c: "episodesCache sampleTV = []" by (simp add: sampleTV_def)
  have n: "totalseasons sampleTV = Some 2" by (simp add: sampleTV_def)
  obtain r tv' reqs where e: "episodes testHost emptyKy sampleTV = (r, tv', reqs)"
    by (cases "episodes testHost emptyKy sampleTV") auto
  have "seasonsOf (fst (episodes testHost emptyKy sampleTV)) = Some []" by code_simp
  with e have r: "r = Resolved []" by (cases r) (simp_all add: seasonsOf_def)
  note g = episodes_cache_guard [of sampleTV testHost emptyKy "[]" tv' reqs]
  from g c e r have t: "tv' = sampleTV" by blast
  from g c e r have q: "\<forall>ky2. snd (snd (episodes testHost ky2 tv')) = reqs" by blast
  from g c have "length (snd (snd (episodes testHost emptyKy sampleTV)))
                   = (case totalseasons sampleTV of None \<Rightarrow> 0 | Some n \<Rightarrow> nat n)"
    by blast
  with e n have l: "length reqs = 2" by simp
  from q t have "snd (snd (episodes testHost downKy sampleTV)) = reqs" by blast
  with e r t l
  show "\<exists>reqs.
      episodes testHost emptyKy sampleTV = (Resolved [], sampleTV, reqs) \<and>
      length reqs = 2 \<and> snd (snd (episodes testHost downKy sampleTV)) = reqs"
    by blast
next
  have c: "episodesCache sampleTV = []" by (simp add: sampleTV_def)
  obtain r tv' reqs where e: "episodes testHost arrayKy sampleTV = (r, tv', reqs)"
    by (cases "episodes testHost arrayKy sampleTV") auto
  have "seasonsOf (fst (episodes testHost arrayKy sampleTV)) = Some [Num 1, Num 2]"
    by code_simp
  with e obtain eps where r: "r = Resolved eps"
    and s: "map (\<lambda>e. getp e ''season'') eps = [Num 1, Num 2]"
    by (cases r) (simp_all add: seasonsOf_def)
  from s have l: "length eps = 2" by (metis length_map length_Cons list.size(3) numeral_2_eq_2)
  then have ne: "eps \<noteq> []" by auto
  from episodes_cache_guard [of sampleTV testHost arrayKy eps tv' reqs] c e r ne l
  show "\<exists>eps tv' reqs.
      episodes testHost arrayKy sampleTV = (Resolved eps, tv', reqs) \<and>
      length eps = 2 \<and> episodes testHost downKy tv' = (Resolved eps, tv', [])"
    by auto
next
  have c: "episodesCache sampleTV = []" by (simp add: sampleTV_def)
  obtain r tv' reqs where e: "episodes testHost conflictingKy sampleTV = (r, tv', reqs)"
    by (cases "episodes testHost conflictingKy sampleTV") auto
  have "seasonsOf (fst (episodes testHost conflictingKy sampleTV)) = Some [Num 5, Num 2, Num 2]"
    by code_simp
  with e obtain eps where r: "r = Resolved eps"
    and s: "map (\<lambda>e. getp e ''season'') eps = [Num 5, Num 2, Num 2]"
    by (cases r) (simp_all add: seasonsOf_def)
  from s have ne: "eps \<noteq> []" by auto
  from episodes_cache_guard [of sampleTV testHost conflictingKy eps tv' reqs] c e r
  have "episodesCache tv' = eps" by blast
  with ne have k: "episodesCache tv' \<noteq> []" by simp
  with episodes_cache_guard [of tv' testHost conflictingKy]
  have "episodes testHost conflictingKy tv' = (Resolved (episodesCache tv'), tv', [])" by blast
  with e r k show "\<exists>eps tv' reqs.
      episodes testHost conflictingKy sampleTV = (Resolved eps, tv', reqs) \<and>
      episodesCache tv' \<noteq> [] \<and>
      episodes testHost conflictingKy tv' = (Resolved (episodesCache tv'), tv', [])"
    by blast
qed

subsection \<open>Client.get and the module-level wrappers\<close>

lemma getSend_requests:
  "snd (getSend h ky req os qs) = [\<lparr> searchParams = qs, headers = jsonHeaders, rtimeout = timeoutOf os \<rparr>]"
  by (cases "ky \<lparr> searchParams = qs, headers = jsonHeaders, rtimeout = timeoutOf os \<rparr>")
     (simp_all add: getSend_def Let_def)

text \<open>
  C2 (as amended). \<open>Client.get\<close> rejects with the \<open>ImdbError\<close> "Missing one of req.id
  or req.name", without handing any request to the transport, exactly when neither
  \<open>name\<close> nor \<open>id\<close> is present (absent or empty). Otherwise it hands exactly one
  request to the transport: with the name as \<open>t\<close> and no \<open>i\<close> when a name is given,
  whether or not an id is given too, and with the id as \<open>i\<close> and no \<open>t\<close> when only
  an id is given.
\<close>

theorem client_get_validation:
  "(\<not> truthyStr (req_name req) \<and> \<not> truthyStr (req_id req) \<longrightarrow>
      Client_get h ky c req ov = (Rejected (ImdbError ''Missing one of req.id or req.name''), [])) \<and>
   (truthyStr (req_name req) \<longrightarrow>
      (\<exists>q. snd (Client_get h ky c req ov) = [q] \<and>
           map_of (searchParams q) ''t'' = Some (optStr (req_name req)) \<and>
           map_of (searchParams q) ''i'' = None)) \<and>
   (\<not> truthyStr (req_name req) \<and> truthyStr (req_id req) \<longrightarrow>
      (\<exists>q. snd (Client_get h ky c req ov) = [q] \<and>
           map_of (searchParams q) ''i'' = Some (optStr (req_id req)) \<and>
           map_of (searchParams q) ''t'' = None))"
  by (cases "req_year req") (simp_all add: Client_get_def Let_def getSend_requests)

theorem client_get_validation_witness:
  "Client_get testHost movieKy sampleClient (requestOf None None) None
     = (Rejected (ImdbError ''Missing one of req.id or req.name''), []) \<and>
   (\<exists>q. snd (Client_get testHost movieKy sampleClient (requestOf (Some ''Foo'') (Some ''tt1'')) None) = [q] \<and>
        map_of (searchParams q) ''t'' = Some (Str ''Foo'') \<and> map_of (searchParams q) ''i'' = None) \<and>
   (\<exists>q. snd (Client_get testHost movieKy sampleClient (requestOf None (Some ''tt1'')) None) = [q] \<and>
        map_of (searchParams q) ''i'' = Some (Str ''tt1'') \<and> map_of (searchParams q) ''t'' = None)"
  using client_get_validation [of "requestOf None None" testHost movieKy sampleClient None]
    client_get_validation [of "requestOf (Some ''Foo'') (Some ''tt1'')" testHost movieKy sampleClient None]
    client_get_validation [of "requestOf None (Some ''tt1'')" testHost movieKy sampleClient None]
  by (simp add: requestOf_def truthyStr_def optStr_def)

text \<open>
  C2 (as stated) fails: a request that supplies both a name and an id is not rejected;
  one request goes to the transport, carrying the name.
\<close>

theorem client_get_both_counterexample:
  "rejectionOf (fst (Client_get testHost movieKy sampleClient (requestOf (Some ''Foo'') (Some ''tt1'')) None))
     = None \<and>
   map searchParams (snd (Client_get testHost movieKy sampleClient (requestOf (Some ''Foo'') (Some ''tt1'')) None))
     = [[(''apikey'', Str ''key''), (''plot'', Str ''full''), (''r'', Str ''json''), (''t'', Str ''Foo'')]]"
  by code_simp

text \<open>
  C3. With options that have no \<open>apiKey\<close> property the module-level \<open>get\<close> returns a
  rejected promise, while the module-level \<open>search\<close> throws the constructor's
  \<open>ImdbError\<close> synchronously; neither hands a request to the transport.
\<close>

theorem search_throws_without_key:
  "get h ky req \<lparr> apiKey = Missing, timeout = t \<rparr>
     = (Rejected (ImdbError ''Missing api key in opts''), []) \<and>
   search h ky' sreq (SOpts \<lparr> apiKey = Missing, timeout = t \<rparr>) page
     = (Throws (ImdbError ''Missing api key in opts''), [])"
  by (simp add: get_def search_def Client_def)

subsection \<open>The loop of the SearchResults constructor\<close>

lemma gets_sets_other: "p \<noteq> k \<Longrightarrow> gets (sets this k v) p = gets this p"
  by (simp add: gets_def sets_def)

lemma gets_sets_same: "k \<noteq> ''__proto__'' \<Longrightarrow> gets (sets this k v) k = v"
  by (simp add: gets_def sets_def)

lemma lower_totalResults: "toLowerCase ''totalResults'' = ''totalresults''"
  by (simp add: toLowerCase_def toLowerChar_def)

lemma searchAttr_missing: "map_of obj attr = None \<Longrightarrow> searchAttr h obj this attr = Inr this"
  by (simp add: searchAttr_def)

lemma searchAttr_Search:
  "map_of obj ''Search'' = Some v \<Longrightarrow>
   searchAttr h obj this ''Search'' =
     (if builtResults h v = [] then Inr this
      else (case gets this ''results'' of
              SArr rs \<Rightarrow> Inr (sets this ''results'' (SArr (rs @ builtResults h v)))
            | _ \<Rightarrow> Inl (TypeError ''this.results.push is not a function'')))"
  by (simp add: searchAttr_def)

lemma searchAttr_total:
  "map_of obj ''totalResults'' = Some v \<Longrightarrow>
   searchAttr h obj this ''totalResults'' =
     Inr (sets this ''totalresults'' (totalOf (sString (ofS v))))"
  by (simp add: searchAttr_def lower_totalResults totalOf_def)

lemma searchAttr_general:
  "attr \<noteq> ''Search'' \<Longrightarrow> attr \<noteq> ''totalResults'' \<Longrightarrow> map_of obj attr = Some v \<Longrightarrow>
   searchAttr h obj this attr = Inr (sets this (toLowerCase attr) (ofS v))"
  by (simp add: searchAttr_def)

text \<open>One step of the loop on a response of the declared shape.\<close>

lemma searchAttr_ok:
  assumes r: "hasResults this"
    and pl: "attr = ''Search'' \<or> attr = ''totalResults'' \<or> toLowerCase attr \<notin> set pageState"
  shows "\<exists>t. searchAttr h obj this attr = Inr t \<and> hasResults t \<and>
             gets t ''page'' = gets this ''page'' \<and> gets t ''req'' = gets this ''req'' \<and>
             gets t ''opts'' = gets this ''opts'' \<and>
             (attr \<noteq> ''totalResults'' \<longrightarrow> gets t ''totalresults'' = gets this ''totalresults'')"
proof (cases "map_of obj attr")
  case None
  with r show ?thesis by (simp add: searchAttr_missing)
next
  case (Some v)
  consider (s) "attr = ''Search''" | (t) "attr = ''totalResults''"
    | (g) "attr \<noteq> ''Search''" "attr \<noteq> ''totalResults''"
    by blast
  then show ?thesis
  proof cases
    case s
    from r obtain rs where "gets this ''results'' = SArr rs" by (auto simp: hasResults_def)
    with s Some r show ?thesis
      by (simp add: searchAttr_Search hasResults_def gets_sets_other gets_sets_same)
  next
    case t
    with Some r show ?thesis
      by (simp add: searchAttr_total hasResults_def gets_sets_other)
  next
    case g
    with pl have "toLowerCase attr \<notin> set pageState" by simp
    then have "''page'' \<noteq> toLowerCase attr" "''req'' \<noteq> toLowerCase attr"
      "''opts'' \<noteq> toLowerCase attr" "''results'' \<noteq> toLowerCase attr"
      "''totalresults'' \<noteq> toLowerCase attr"
      by (auto simp: pageState_def)
    with g Some r show ?thesis
      by (simp add: searchAttr_general hasResults_def gets_sets_other)
  qed
qed

lemma searchLoop_ok:
  assumes "hasResults this"
    and "\<forall>attr \<in> set ks. attr = ''Search'' \<or> attr = ''totalResults'' \<or> toLowerCase attr \<notin> set pageState"
  shows "\<exists>t. searchLoop h obj this ks = Inr t \<and> hasResults t \<and>
             gets t ''page'' = gets this ''page'' \<and> gets t ''req'' = gets this ''req'' \<and>
             gets t ''opts'' = gets this ''opts'' \<and>
             (''totalResults'' \<notin> set ks \<longrightarrow> gets t ''totalresults'' = gets this ''totalresults'')"
  using assms
proof (induction ks arbitrary: this)
  case Nil
  then show ?case by simp
next
  case (Cons k ks)
  from Cons.prems(2) have plk: "k = ''Search'' \<or> k = ''totalResults'' \<or> toLowerCase k \<notin> set pageState"
    and plks: "\<forall>attr \<in> set ks. attr = ''Search'' \<or> attr = ''totalResults'' \<or> toLowerCase attr \<notin> set pageState"
    by simp_all
  from searchAttr_ok [OF Cons.prems(1) plk, of h obj] obtain u where
    u: "searchAttr h obj this k = Inr u" "hasResults u"
       "gets u ''page'' = gets this ''page''" "gets u ''req'' = gets this ''req''"
       "gets u ''opts'' = gets this ''opts''"
       "k \<noteq> ''totalResults'' \<longrightarrow> gets u ''totalresults'' = gets this ''totalresults''"
    by blast
  from Cons.IH [OF u(2) plks] obtain t where
    t: "searchLoop h obj u ks = Inr t" "hasResults t"
       "gets t ''page'' = gets u ''page''" "gets t ''req'' = gets u ''req''"
       "gets t ''opts'' = gets u ''opts''"
       "''totalResults'' \<notin> set ks \<longrightarrow> gets t ''totalresults'' = gets u ''totalresults''"
    by blast
  from u t show ?case by auto
qed

lemma searchLoop_append:
  "searchLoop h obj this (xs @ ys) =
     (case searchLoop h obj this xs of Inl e \<Rightarrow> Inl e | Inr t \<Rightarrow> searchLoop h obj t ys)"
proof (induction xs arbitrary: this)
  case Nil
  then show ?case by simp
next
  case (Cons x xs)
  then show ?case by (cases "searchAttr h obj this x") simp_all
qed

lemma searchLoop_total:
  assumes r: "hasResults this"
    and pl: "\<forall>attr \<in> set ks. attr = ''Search'' \<or> attr = ''totalResults'' \<or> toLowerCase attr \<notin> set pageState"
    and d: "distinct ks" and k: "''totalResults'' \<in> set ks"
    and v: "map_of obj ''totalResults'' = Some v"
    and t: "searchLoop h obj this ks = Inr t"
  shows "gets t ''totalresults'' = totalOf (sString (ofS v))"
proof -
  from k obtain pre post where ks: "ks = pre @ ''totalResults'' # post" by (meson split_list)
  from pl ks have plpre: "\<forall>attr \<in> set pre. attr = ''Search'' \<or> attr = ''totalResults'' \<or> toLowerCase attr \<notin> set pageState"
    and plpost: "\<forall>attr \<in> set post. attr = ''Search'' \<or> attr = ''totalResults'' \<or> toLowerCase attr \<notin> set pageState"
    by simp_all
  from d ks have np: "''totalResults'' \<notin> set post" by simp
  from searchLoop_ok [OF r plpre, of h obj] obtain u where
    u: "searchLoop h obj this pre = Inr u" "hasResults u" by blast
  let ?w = "sets u ''totalresults'' (totalOf (sString (ofS v)))"
  have step: "searchAttr h obj u ''totalResults'' = Inr ?w" using v by (rule searchAttr_total)
  have rw: "hasResults ?w" using u(2) by (simp add: hasResults_def gets_sets_other)
  from searchLoop_ok [OF rw plpost, of h obj] np obtain t' where
    t': "searchLoop h obj ?w post = Inr t'" "gets t' ''totalresults'' = gets ?w ''totalresults''"
    by blast
  from u(1) step t'(1) have "searchLoop h obj this ks = Inr t'"
    by (simp add: ks searchLoop_append)
  with t have "t = t'" by simp
  with t'(2) show ?thesis by (simp add: gets_sets_same)
qed

lemma SearchResults_ok:
  assumes "plainSearch obj"
  shows "\<exists>sr. SearchResults h obj page os req = Inr sr \<and>
              gets sr ''page'' = page \<and> gets sr ''req'' = req \<and> gets sr ''opts'' = SOpts os \<and>
              (\<forall>v. map_of obj ''totalResults'' = Some v \<longrightarrow>
                    gets sr ''totalresults'' = totalOf (sString (ofS v)))"
proof -
  let ?init = "sets (sets (sets (sets Map.empty ''results'' (SArr [])) ''page'' page) ''req'' req)
                 ''opts'' (SOpts os)"
  have r: "hasResults ?init" by (simp add: hasResults_def gets_sets_other gets_sets_same)
  have pl: "\<forall>attr \<in> set (map fst obj). attr = ''Search'' \<or> attr = ''totalResults'' \<or>
              toLowerCase attr \<notin> set pageState"
    using assms unfolding plainSearch_def list_all_iff by blast
  have d: "distinct (map fst obj)" using assms by (simp add: plainSearch_def)
  from searchLoop_ok [OF r pl, of h obj] obtain sr where
    sr: "searchLoop h obj ?init (map fst obj) = Inr sr"
        "gets sr ''page'' = gets ?init ''page''" "gets sr ''req'' = gets ?init ''req''"
        "gets sr ''opts'' = gets ?init ''opts''"
    by blast
  have "\<forall>v. map_of obj ''totalResults'' = Some v \<longrightarrow>
            gets sr ''totalresults'' = totalOf (sString (ofS v))"
  proof (intro allI impI)
    fix v assume v: "map_of obj ''totalResults'' = Some v"
    then have "(''totalResults'', v) \<in> set obj" by (rule map_of_SomeD)
    then have k: "''totalResults'' \<in> set (map fst obj)" by force
    from searchLoop_total [OF r pl d k v sr(1)]
    show "gets sr ''totalresults'' = totalOf (sString (ofS v))" .
  qed
  with sr show ?thesis
    by (simp add: SearchResults_def Let_def gets_sets_other gets_sets_same)
qed

subsection \<open>Client.search and next\<close>

lemma reqtoqueryobj_request:
  "reqtoqueryobj h (SReq req) k (SNum p) = Inr (searchParams (pageRequest h \<lparr> apiKey = k, timeout = t \<rparr> req p))"
  by (cases "syear req"; cases "reqtype req")
     (simp_all add: reqtoqueryobj_def pageRequest_def nameOf_def yearOf_def reqtypeOf_def
                    sString_def Let_def)

lemma searchParams_pageRequest:
  "\<lparr> searchParams = searchParams (pageRequest h \<lparr> apiKey = apiKey os, timeout = t \<rparr> req p),
     headers = jsonHeaders, rtimeout = timeoutOf os \<rparr> = pageRequest h os req p"
  by (simp add: pageRequest_def)

lemma Client_search_requests:
  "snd (Client_search h ky c (SReq req) (pageArg pg) ov)
     = [pageRequest h (mergeOpts c ov) req (pageNumber pg)]"
proof -
  let ?os = "mergeOpts c ov"
  let ?q = "pageRequest h ?os req (pageNumber pg)"
  have p: "(if pageArg pg = SUndefined then SNum 1 else pageArg pg) = SNum (pageNumber pg)"
    by (cases pg) (simp_all add: pageArg_def pageNumber_def)
  have q: "reqtoqueryobj h (SReq req) (apiKey ?os) (SNum (pageNumber pg))
             = Inr (searchParams (pageRequest h \<lparr> apiKey = apiKey ?os, timeout = Missing \<rparr> req (pageNumber pg)))"
    by (rule reqtoqueryobj_request)
  show ?thesis
  proof (cases "ky ?q")
    case (Inl e)
    then show ?thesis
      unfolding Client_search_def Let_def p q by (simp add: searchParams_pageRequest)
  next
    case (Inr data)
    then show ?thesis
      unfolding Client_search_def Let_def p q
      by (cases "SearchResults h data (SNum (pageNumber pg)) ?os (SReq req)")
         (simp_all add: searchParams_pageRequest)
  qed
qed

lemma Client_search_resolved:
  assumes ky: "ky (pageRequest h (mergeOpts c ov) req (pageNumber pg)) = Inr data"
    and ne: "\<not> isErrorS data" and pl: "plainSearch data"
  shows "\<exists>sr. Client_search h ky c (SReq req) (pageArg pg) ov
                = (Resolved sr, [pageRequest h (mergeOpts c ov) req (pageNumber pg)]) \<and>
              gets sr ''page'' = SNum (pageNumber pg) \<and> gets sr ''req'' = SReq req \<and>
              gets sr ''opts'' = SOpts (mergeOpts c ov) \<and>
              (\<forall>v. map_of data ''totalResults'' = Some v \<longrightarrow>
                    gets sr ''totalresults'' = totalOf (sString (ofS v)))"
proof -
  let ?os = "mergeOpts c ov"
  have p: "(if pageArg pg = SUndefined then SNum 1 else pageArg pg) = SNum (pageNumber pg)"
    by (cases pg) (simp_all add: pageArg_def pageNumber_def)
  have q: "reqtoqueryobj h (SReq req) (apiKey ?os) (SNum (pageNumber pg))
             = Inr (searchParams (pageRequest h \<lparr> apiKey = apiKey ?os, timeout = Missing \<rparr> req (pageNumber pg)))"
    by (rule reqtoqueryobj_request)
  from SearchResults_ok [OF pl, of h "SNum (pageNumber pg)" ?os "SReq req"] obtain sr where
    sr: "SearchResults h data (SNum (pageNumber pg)) ?os (SReq req) = Inr sr"
        "gets sr ''page'' = SNum (pageNumber pg)" "gets sr ''req'' = SReq req"
        "gets sr ''opts'' = SOpts ?os"
        "\<forall>v. map_of data ''totalResults'' = Some v \<longrightarrow>
              gets sr ''totalresults'' = totalOf (sString (ofS v))"
    by blast
  have "Client_search h ky c (SReq req) (pageArg pg) ov
          = (Resolved sr, [pageRequest h ?os req (pageNumber pg)])"
    unfolding Client_search_def Let_def p q using ky ne sr(1)
    by (simp add: searchParams_pageRequest)
  with sr show ?thesis by blast
qed

lemma spread_none: "spread os \<lparr> apiKey = Missing, timeout = Missing \<rparr> = os"
  by (simp add: spread_def)

lemma Client_apiKey: "Client os0 = Inr c \<Longrightarrow> apiKey (mergeOpts c ov) \<noteq> Missing"
  by (cases ov) (auto simp: Client_def mergeOpts_def spread_def split: if_splits)

lemma next_is_search:
  assumes "gets sr ''page'' = SNum p" "gets sr ''req'' = SReq req" "gets sr ''opts'' = SOpts os"
    and "apiKey os \<noteq> Missing"
  shows "next h ky sr = Client_search h ky \<lparr> copts = os \<rparr> (SReq req) (pageArg (Some (p + 1))) None"
    and "mergeOpts \<lparr> copts = os \<rparr> None = os"
  using assms by (simp_all add: next_def search_def Client_def plusOne_def pageArg_def mergeOpts_def spread_none)

subsection \<open>Pagination\<close>

text \<open>
  C8. For a constructed client, a search whose response is of the declared shape and not
  error-classified hands the transport the request for the given page, page 1 when the
  page is omitted, and resolves with a page object that stores that page number, the
  original request and the merged options; its \<open>totalresults\<close> is \<open>parseInt\<close> of the
  upstream \<open>totalResults\<close> string. \<open>next()\<close> on that object is a search with the
  stored request, the stored options and the page number plus one, and hands the
  transport the request for that next page.
\<close>

theorem search_pagination:
  assumes c: "Client os0 = Inr c"
    and ky: "ky (pageRequest h (mergeOpts c ov) req (pageNumber pg)) = Inr data"
    and ne: "\<not> isErrorS data" and pl: "plainSearch data"
  shows "\<exists>sr. Client_search h ky c (SReq req) (pageArg pg) ov
                = (Resolved sr, [pageRequest h (mergeOpts c ov) req (pageNumber pg)]) \<and>
              pageNumber None = 1 \<and>
              gets sr ''page'' = SNum (pageNumber pg) \<and> gets sr ''req'' = SReq req \<and>
              gets sr ''opts'' = SOpts (mergeOpts c ov) \<and>
              (\<forall>s. map_of data ''totalResults'' = Some (SStr s) \<longrightarrow>
                    gets sr ''totalresults'' = totalOf s) \<and>
              (\<forall>ky2. next h ky2 sr = search h ky2 (SReq req) (SOpts (mergeOpts c ov))
                                        (SNum (pageNumber pg + 1)) \<and>
                     snd (next h ky2 sr) = [pageRequest h (mergeOpts c ov) req (pageNumber pg + 1)])"
proof -
  from Client_search_resolved [where ky = ky and h = h and c = c and ov = ov and req = req
      and pg = pg and data = data, OF ky ne pl] obtain sr where
    sr: "Client_search h ky c (SReq req) (pageArg pg) ov
           = (Resolved sr, [pageRequest h (mergeOpts c ov) req (pageNumber pg)])"
        "gets sr ''page'' = SNum (pageNumber pg)" "gets sr ''req'' = SReq req"
        "gets sr ''opts'' = SOpts (mergeOpts c ov)"
        "\<forall>v. map_of data ''totalResults'' = Some v \<longrightarrow>
              gets sr ''totalresults'' = totalOf (sString (ofS v))"
    by blast
  have k: "apiKey (mergeOpts c ov) \<noteq> Missing" using c by (rule Client_apiKey)
  have t: "\<forall>s. map_of data ''totalResults'' = Some (SStr s) \<longrightarrow> gets sr ''totalresults'' = totalOf s"
    using sr(5) by (auto simp: sString_def)
  have n: "\<forall>ky2. next h ky2 sr = search h ky2 (SReq req) (SOpts (mergeOpts c ov))
                                        (SNum (pageNumber pg + 1)) \<and>
                 snd (next h ky2 sr) = [pageRequest h (mergeOpts c ov) req (pageNumber pg + 1)]"
  proof (intro allI conjI)
    fix ky2
    show "next h ky2 sr = search h ky2 (SReq req) (SOpts (mergeOpts c ov)) (SNum (pageNumber pg + 1))"
      using sr(2,3,4) by (simp add: next_def plusOne_def)
    have "snd (next h ky2 sr)
            = snd (Client_search h ky2 \<lparr> copts = mergeOpts c ov \<rparr> (SReq req)
                     (pageArg (Some (pageNumber pg + 1))) None)"
      using next_is_search(1) [OF sr(2,3,4) k] by simp
    also have "\<dots> = [pageRequest h (mergeOpts \<lparr> copts = mergeOpts c ov \<rparr> None) req
                        (pageNumber (Some (pageNumber pg + 1)))]"
      by (rule Client_search_requests)
    finally show "snd (next h ky2 sr) = [pageRequest h (mergeOpts c ov) req (pageNumber pg + 1)]"
      using next_is_search(2) [OF sr(2,3,4) k] by (simp add: pageNumber_def)
  qed
  have "pageNumber None = 1" by (simp add: pageNumber_def)
  with sr t n show ?thesis by blast
qed

theorem search_pagination_witness:
  "\<exists>sr q1 q2.
     Client_search testHost searchKy sampleClient (SReq sampleSearch) SUndefined None
       = (Resolved sr, [q1]) \<and>
     map_of (searchParams q1) ''page'' = Some (Str ''1'') \<and>
     gets sr ''page'' = SNum 1 \<and> gets sr ''req'' = SReq sampleSearch \<and>
     gets sr ''opts'' = SOpts sampleOpts \<and> gets sr ''totalresults'' = SNum 25 \<and>
     snd (next testHost searchKy sr) = [q2] \<and>
     map_of (searchParams q2) ''page'' = Some (Str ''2'') \<and>
     map_of (searchParams q2) ''s'' = Some (Str ''Toxic Avenger'') \<and>
     map_of (searchParams q2) ''apikey'' = Some (Str ''key'')"
proof -
  have c: "Client sampleOpts = Inr sampleClient"
    by (simp add: Client_def sampleOpts_def sampleClient_def)
  have m: "mergeOpts sampleClient None = sampleOpts"
    by (simp add: mergeOpts_def sampleClient_def spread_none)
  have ky: "searchKy (pageRequest testHost (mergeOpts sampleClient None) sampleSearch (pageNumber None))
              = Inr searchData"
    by (simp add: searchKy_def)
  have ne: "\<not> isErrorS searchData" by code_simp
  have pl: "plainSearch searchData" by code_simp
  have tr: "map_of searchData ''totalResults'' = Some (SStr ''25'')" by (simp add: searchData_def)
  have "parseIntStr ''25'' = Some 25" by code_simp
  then have tv: "totalOf ''25'' = SNum 25" by (simp add: totalOf_def)
  have p1: "map_of (searchParams (pageRequest testHost sampleOpts sampleSearch 1)) ''page'' = Some (Str ''1'')"
    by code_simp
  have p2: "map_of (searchParams (pageRequest testHost sampleOpts sampleSearch 2)) ''page'' = Some (Str ''2'')"
    "map_of (searchParams (pageRequest testHost sampleOpts sampleSearch 2)) ''s'' = Some (Str ''Toxic Avenger'')"
    "map_of (searchParams (pageRequest testHost sampleOpts sampleSearch 2)) ''apikey'' = Some (Str ''key'')"
    by code_simp+
  from search_pagination [where ky = searchKy and h = testHost and c = sampleClient and ov = None
      and req = sampleSearch and pg = None and data = searchData and ?os0.0 = sampleOpts,
      OF c ky ne pl] obtain sr where
    "Client_search testHost searchKy sampleClient (SReq sampleSearch) (pageArg None) None
       = (Resolved sr, [pageRequest testHost sampleOpts sampleSearch 1])"
    "gets sr ''page'' = SNum 1" "gets sr ''req'' = SReq sampleSearch"
    "gets sr ''opts'' = SOpts sampleOpts" "gets sr ''totalresults'' = totalOf ''25''"
    "snd (next testHost searchKy sr) = [pageRequest testHost sampleOpts sampleSearch 2]"
    using m tr by (auto simp: pageNumber_def)
  with tv p1 p2 show ?thesis by (auto simp: pageArg_def)
qed

end
